theory Spec2Isabelle
  imports Main "HOL-Library.AList"
begin

section \<open>The forum canister of \<^verbatim>\<open>src/index.ts\<close>\<close>

text \<open>
  The development follows \<^verbatim>\<open>src/src/index.ts\<close>. Everything the TypeScript reads from
  its environment is an explicit argument of the model: the caller
  (\<^verbatim>\<open>ic.caller().toString()\<close>), the identifier returned by \<^verbatim>\<open>uuidv4()\<close> and the
  time returned by \<^verbatim>\<open>new Date()\<close>. The mutable module-level stores are the fields
  of a state record that every operation takes and returns.

  The repository also holds an earlier draft of the same server, with the same
  functions. The build (\<^verbatim>\<open>"main": "src/index.ts"\<close>) runs the file followed here. Where
  the two differ, the draft is the one with the known defects: its \<^verbatim>\<open>splice(i, i)\<close>
  removes \<open>i\<close> elements instead of one, its \<^verbatim>\<open>likeOrUnlikeMessage\<close> compares an index
  with \<^verbatim>\<open>undefined\<close>, and its \<^verbatim>\<open>banAddress\<close> has one combined check and no check for an
  address that is banned already.
\<close>

subsection \<open>The key-value stores\<close>

text \<open>
  Modelled from the spec: \<^verbatim>\<open>StableBTreeMap\<close> comes from the \<^verbatim>\<open>azle\<close> package, which is
  not part of the sources. Following the spec's contract for the durable substrate
  (unique-key insert, get, remove and an emptiness check, the stores being process-wide
  state), a store is an association list of rows: \<^verbatim>\<open>insert\<close> replaces the row of an
  existing key or adds a row, \<^verbatim>\<open>get\<close> reads the row of a key, \<^verbatim>\<open>remove\<close> drops it,
  \<^verbatim>\<open>values\<close> and \<^verbatim>\<open>entries\<close> list the rows. An object read from a store is the stored
  object itself, so what a handler changes through it is seen by later requests.
\<close>

type_synonym 'v StableBTreeMap = "(string \<times> 'v) list"

definition store_insert :: "string \<Rightarrow> 'v \<Rightarrow> 'v StableBTreeMap \<Rightarrow> 'v StableBTreeMap" where
  "store_insert k v m = AList.update k v m"

definition store_get :: "'v StableBTreeMap \<Rightarrow> string \<Rightarrow> 'v option" where
  "store_get m k = map_of m k"

definition store_remove :: "string \<Rightarrow> 'v StableBTreeMap \<Rightarrow> 'v StableBTreeMap" where
  "store_remove k m = AList.delete k m"

definition store_values :: "'v StableBTreeMap \<Rightarrow> 'v list" where
  "store_values m = map snd m"

definition store_entries :: "'v StableBTreeMap \<Rightarrow> (string \<times> 'v) list" where
  "store_entries m = m"

subsection \<open>Messages, topics and categories\<close>

text \<open>
  The classes \<^verbatim>\<open>Message\<close>, \<^verbatim>\<open>Topic extends Message\<close> and \<^verbatim>\<open>Category\<close>. The field
  \<^verbatim>\<open>id\<close> is called \<open>ident\<close>, and the fields of \<^verbatim>\<open>Category\<close> that share a name with a
  field of \<^verbatim>\<open>Message\<close> carry the prefix \<open>category\<close>. A \<^verbatim>\<open>Date\<close> is a natural number.

  \<^verbatim>\<open>messageEditHistory\<close> is a JavaScript \<^verbatim>\<open>Map<Date, string>\<close> whose keys are \<^verbatim>\<open>Date\<close>
  objects. Such a map compares object keys by identity, and every key is a fresh
  \<^verbatim>\<open>new Date()\<close>, so \<^verbatim>\<open>set\<close> always adds an entry at the end and never replaces one:
  the history is the list of its entries in insertion order.

  \<^verbatim>\<open>topics\<close> is a JavaScript \<^verbatim>\<open>Map<string, Topic>\<close>, read with \<^verbatim>\<open>get\<close> and written
  with \<^verbatim>\<open>set\<close> only: a partial function from topic ids to topics.

  \<^verbatim>\<open>pinnedTopics\<close> is declared \<^verbatim>\<open>string[]\<close>, but the pin handler can push \<^verbatim>\<open>undefined\<close>
  onto it (see \<open>pinTopic\<close>): its elements are \<open>string option\<close>, with \<open>None\<close> for
  \<^verbatim>\<open>undefined\<close>.

  The \<^verbatim>\<open>Map\<close> object \<^verbatim>\<open>category.topics\<close> can get properties of its own: the lookup hands
  it out for the topic id \<^verbatim>\<open>topics\<close>, and the handlers for closing, pinning and deleting
  then assign \<^verbatim>\<open>closed\<close>, \<^verbatim>\<open>pinned\<close> and \<^verbatim>\<open>message\<close> to it as they would to a topic.
  The fields \<open>topicsClosed\<close>, \<open>topicsPinned\<close> and \<open>topicsMessage\<close> of a category hold
  these three properties of its map, \<open>None\<close> while a property is \<^verbatim>\<open>undefined\<close>. No other
  property of the map is ever assigned.
\<close>

record Message =
  ident :: string
  message :: string
  messageDeleted :: bool
  createdBy :: string
  createdAt :: nat
  likes :: "string list"
  messageEditHistory :: "(nat \<times> string) list"

record Topic = Message +
  title :: string
  posts :: "Message list"
  pinned :: bool
  closed :: bool
  categoryid :: string
  titleEditHistory :: "(nat \<times> string) list"
  mostRecentActivity :: nat

record Category =
  categoryIdent :: string
  name :: string
  topics :: "string \<rightharpoonup> Topic"
  pinnedTopics :: "string option list"
  mostRecentTopics :: "string list"
  categoryCreatedAt :: nat
  categoryCreatedBy :: string
  topicsClosed :: "bool option"
  topicsPinned :: "bool option"
  topicsMessage :: "string option"

definition new_Message :: "string \<Rightarrow> string \<Rightarrow> string \<Rightarrow> nat \<Rightarrow> Message" where
  "new_Message i m by now =
     \<lparr>ident = i, message = m, messageDeleted = False, createdBy = by, createdAt = now,
      likes = [], messageEditHistory = []\<rparr>"

definition new_Topic :: "string \<Rightarrow> string \<Rightarrow> string \<Rightarrow> string \<Rightarrow> string \<Rightarrow> nat \<Rightarrow> Topic" where
  "new_Topic i t m c by now =
     \<lparr>ident = i, message = m, messageDeleted = False, createdBy = by, createdAt = now,
      likes = [], messageEditHistory = [],
      title = t, posts = [], pinned = False, closed = False, categoryid = c,
      titleEditHistory = [], mostRecentActivity = now\<rparr>"

definition new_Category :: "string \<Rightarrow> string \<Rightarrow> string \<Rightarrow> nat \<Rightarrow> Category" where
  "new_Category i n by now =
     \<lparr>categoryIdent = i, name = n, topics = Map.empty, pinnedTopics = [],
      mostRecentTopics = [], categoryCreatedAt = now, categoryCreatedBy = by,
      topicsClosed = None, topicsPinned = None, topicsMessage = None\<rparr>"

record State =
  categoriesStorage :: "Category StableBTreeMap"
  bannedAddressesStorage :: "string StableBTreeMap"
  moderatorsStorage :: "string StableBTreeMap"
  adminsStorage :: "string StableBTreeMap"

subsection \<open>Roles and bans\<close>

text \<open>
  \<^verbatim>\<open>String.prototype.toUpperCase\<close> on the letters \<^verbatim>\<open>a\<close> to \<^verbatim>\<open>z\<close>; every other
  character of an address (digits, dashes, capitals) is left as it is. The text of a
  principal is made of ASCII letters, digits and dashes. JavaScript also maps the cased
  letters outside ASCII, which this function leaves alone; the general theorems below use
  no property of \<open>toUpperCase\<close>, only the examples compute with it.
\<close>

definition upper_char :: "char \<Rightarrow> char" where
  "upper_char c =
     (case map_of (zip ''abcdefghijklmnopqrstuvwxyz'' ''ABCDEFGHIJKLMNOPQRSTUVWXYZ'') c of
        None \<Rightarrow> c
      | Some u \<Rightarrow> u)"

definition toUpperCase :: "string \<Rightarrow> string" where
  "toUpperCase s = map upper_char s"

definition checkIfAdmin :: "State \<Rightarrow> string \<Rightarrow> bool" where
  "checkIfAdmin s address =
     list_ex (\<lambda>admin. toUpperCase admin = toUpperCase address) (store_values (adminsStorage s))"

definition checkIfModerator :: "State \<Rightarrow> string \<Rightarrow> bool" where
  "checkIfModerator s address =
     list_ex (\<lambda>moderator. toUpperCase moderator = toUpperCase address)
       (store_values (moderatorsStorage s))"

definition checkIfBanned :: "State \<Rightarrow> string \<Rightarrow> bool" where
  "checkIfBanned s address =
     list_ex (\<lambda>banned. banned = address) (store_values (bannedAddressesStorage s))"

definition checkIfAuthorized :: "State \<Rightarrow> string \<Rightarrow> string \<Rightarrow> bool" where
  "checkIfAuthorized s creatorAddress caller =
     (checkIfAdmin s caller \<or> checkIfModerator s caller \<or> caller = creatorAddress)"

text \<open>
  The registry functions return \<^verbatim>\<open>Err(message)\<close> as \<open>Inl message\<close> and \<^verbatim>\<open>Ok(address)\<close>
  as \<open>Inr address\<close>, together with the state they leave. The first argument is the
  identifier that \<^verbatim>\<open>uuidv4()\<close> returns when the function reaches it.
\<close>

definition addAdmin :: "string \<Rightarrow> string \<Rightarrow> string \<Rightarrow> State \<Rightarrow> (string + string) \<times> State" where
  "addAdmin uuid address caller s =
     (if \<not> checkIfAdmin s caller then (Inl ''You are not authorized to add an admin'', s)
      else if checkIfAdmin s address then (Inl ''Admin already added'', s)
      else (Inr address, s\<lparr>adminsStorage := store_insert uuid address (adminsStorage s)\<rparr>))"

definition addModerator :: "string \<Rightarrow> string \<Rightarrow> string \<Rightarrow> State \<Rightarrow> (string + string) \<times> State" where
  "addModerator uuid address caller s =
     (if \<not> checkIfAdmin s caller then (Inl ''You are not authorized to add a moderator'', s)
      else if checkIfModerator s address then (Inl ''Moderator already added'', s)
      else (Inr address, s\<lparr>moderatorsStorage := store_insert uuid address (moderatorsStorage s)\<rparr>))"

definition removeModerator :: "string \<Rightarrow> string \<Rightarrow> State \<Rightarrow> (string + string) \<times> State" where
  "removeModerator address caller s =
     (if \<not> checkIfAdmin s caller then (Inl ''You are not authorized to remove a moderator'', s)
      else case find (\<lambda>(key, val). val = address) (store_entries (moderatorsStorage s)) of
             None \<Rightarrow> (Inl ''Moderator not found'', s)
           | Some moderatorEntry \<Rightarrow>
               (Inr address,
                s\<lparr>moderatorsStorage := store_remove (fst moderatorEntry) (moderatorsStorage s)\<rparr>))"

definition removeAdmin :: "string \<Rightarrow> string \<Rightarrow> State \<Rightarrow> (string + string) \<times> State" where
  "removeAdmin address caller s =
     (if \<not> checkIfAdmin s caller then (Inl ''You are not authorized to remove an admin'', s)
      else case find (\<lambda>(key, val). val = address) (store_entries (adminsStorage s)) of
             None \<Rightarrow> (Inl ''Admin not found'', s)
           | Some adminEntry \<Rightarrow>
               (Inr address,
                s\<lparr>adminsStorage := store_remove (fst adminEntry) (adminsStorage s)\<rparr>))"

definition banAddress :: "string \<Rightarrow> string \<Rightarrow> string \<Rightarrow> State \<Rightarrow> (string + string) \<times> State" where
  "banAddress uuid address caller s =
     (if \<not> checkIfAdmin s caller \<and> \<not> checkIfModerator s caller
        then (Inl ''You are not authorized to ban this address'', s)
      else if checkIfAdmin s address \<or> checkIfModerator s address
        then (Inl ''Cannot ban an admin or moderator'', s)
      else if checkIfBanned s address then (Inl ''Address is already banned'', s)
      else (Inr address,
            s\<lparr>bannedAddressesStorage := store_insert uuid address (bannedAddressesStorage s)\<rparr>))"

definition unbanAddress :: "string \<Rightarrow> string \<Rightarrow> State \<Rightarrow> (string + string) \<times> State" where
  "unbanAddress address caller s =
     (if \<not> checkIfAdmin s caller \<and> \<not> checkIfModerator s caller
        then (Inl ''You are not authorized to unban this address'', s)
      else case find (\<lambda>(key, val). val = address) (store_entries (bannedAddressesStorage s)) of
             None \<Rightarrow> (Inl ''Address is not banned'', s)
           | Some bannedEntry \<Rightarrow>
               (Inr address,
                s\<lparr>bannedAddressesStorage :=
                    store_remove (fst bannedEntry) (bannedAddressesStorage s)\<rparr>))"

subsection \<open>Array helpers\<close>

text \<open>
  \<^verbatim>\<open>Array.prototype.findIndex\<close> (with \<open>None\<close> for \<^verbatim>\<open>-1\<close>) and \<^verbatim>\<open>splice(i, 1)\<close>, which
  removes the one element at index \<open>i\<close>.
\<close>

fun findIndex :: "('a \<Rightarrow> bool) \<Rightarrow> 'a list \<Rightarrow> nat option" where
  "findIndex P [] = None"
| "findIndex P (x # xs) =
     (if P x then Some 0 else (case findIndex P xs of None \<Rightarrow> None | Some i \<Rightarrow> Some (Suc i)))"

definition splice1 :: "nat \<Rightarrow> 'a list \<Rightarrow> 'a list" where
  "splice1 i xs = take i xs @ drop (Suc i) xs"

subsection \<open>Lookup\<close>

text \<open>
  What a handler sends: \<^verbatim>\<open>res.status(n).send(body)\<close> is \<open>Sent n body\<close>. When a handler
  sends twice, the client gets the first answer (the second \<^verbatim>\<open>send\<close> throws and ends
  the handler, after every change of the state): the model keeps the first.
  An uncaught exception of the handler is \<open>Crash\<close>. The body \<open>PostNotFound n\<close> is the
  text \<^verbatim>\<open>Post with id=n not found\<close>.
\<close>

datatype body =
    Text string
  | PostNotFound int
  | CategoryBody Category
  | TopicBody Topic
  | TopicsBody "string \<rightharpoonup> Topic"
  | PostBody Message
  | IdsBody "string option list"

datatype response = Sent nat body | Crash string

datatype resolved =
    RCategory Category
  | RTopics "string \<rightharpoonup> Topic"
  | RTopic Topic
  | RPost Message

text \<open>
  \<^verbatim>\<open>getCategoryOrTopicOrPost(res, categoryid, topicid?, postid?)\<close>: an omitted argument
  is \<open>None\<close>. \<open>Inl\<close> is \<^verbatim>\<open>Err(undefined)\<close> together with the answer already sent on
  \<^verbatim>\<open>res\<close>. \<^verbatim>\<open>topic.posts[postid]\<close> is \<^verbatim>\<open>undefined\<close> for every \<^verbatim>\<open>postid\<close> that is not an
  index below the length; the integers outside that range stand for all of these.
\<close>

definition getCategoryOrTopicOrPost ::
  "State \<Rightarrow> string \<Rightarrow> string option \<Rightarrow> int option \<Rightarrow> response + resolved" where
  "getCategoryOrTopicOrPost s cid topicArg postArg =
     (case store_get (categoriesStorage s) cid of
        None \<Rightarrow> Inl (Sent 404 (Text (''Category with id='' @ cid @ '' not found'')))
      | Some category \<Rightarrow>
          (case topicArg of
             None \<Rightarrow> Inr (RCategory category)
           | Some tid \<Rightarrow>
               if tid = ''topics'' then Inr (RTopics (topics category))
               else
                 (case topics category tid of
                    None \<Rightarrow> Inl (Sent 404 (Text (''Topic with id='' @ tid @ '' not found'')))
                  | Some topic \<Rightarrow>
                      (case postArg of
                         None \<Rightarrow> Inr (RTopic topic)
                       | Some pid \<Rightarrow>
                           if 0 \<le> pid \<and> nat pid < length (posts topic)
                           then Inr (RPost (posts topic ! nat pid))
                           else Inl (Sent 404 (PostNotFound pid))))))"

text \<open>
  The handlers change the objects they looked up in place. In the model the changed
  object is written back where the lookup found it: the category under its key in the
  store, the topic under its key in the category's map, the post at its index.
\<close>

definition set_category :: "string \<Rightarrow> Category \<Rightarrow> State \<Rightarrow> State" where
  "set_category cid category s =
     s\<lparr>categoriesStorage := AList.update cid category (categoriesStorage s)\<rparr>"

definition set_topic :: "string \<Rightarrow> string \<Rightarrow> Topic \<Rightarrow> State \<Rightarrow> State" where
  "set_topic cid tid topic s =
     (case store_get (categoriesStorage s) cid of
        None \<Rightarrow> s
      | Some category \<Rightarrow>
          set_category cid (category\<lparr>topics := (topics category)(tid \<mapsto> topic)\<rparr>) s)"

definition set_post :: "string \<Rightarrow> string \<Rightarrow> nat \<Rightarrow> Message \<Rightarrow> State \<Rightarrow> State" where
  "set_post cid tid i post s =
     (case store_get (categoriesStorage s) cid of
        None \<Rightarrow> s
      | Some category \<Rightarrow>
          (case topics category tid of
             None \<Rightarrow> s
           | Some topic \<Rightarrow>
               set_topic cid tid (topic\<lparr>posts := (posts topic)[i := post]\<rparr>) s))"

subsection \<open>Utility functions\<close>

definition acknowledgeTopicActivity :: "nat \<Rightarrow> Category \<Rightarrow> Topic \<Rightarrow> Category \<times> Topic" where
  "acknowledgeTopicActivity now category topic =
     (category\<lparr>mostRecentTopics :=
        ident topic #
          (case findIndex (\<lambda>element. element = ident topic) (mostRecentTopics category) of
             None \<Rightarrow> mostRecentTopics category
           | Some mostRecentTopicIndex \<Rightarrow>
               splice1 mostRecentTopicIndex (mostRecentTopics category))\<rparr>,
      topic\<lparr>mostRecentActivity := now\<rparr>)"

definition sortTopicsByActivityAndPin :: "Category \<Rightarrow> string option list" where
  "sortTopicsByActivityAndPin category =
     foldl (\<lambda>uniqueSortedTopics t.
              if t \<in> set uniqueSortedTopics then uniqueSortedTopics
              else uniqueSortedTopics @ [t])
       [] (pinnedTopics category @ map Some (mostRecentTopics category))"

definition likeOrUnlikeMessage ::
  "string \<Rightarrow> bool \<Rightarrow> 'a Message_scheme \<Rightarrow> bool \<times> 'a Message_scheme" where
  "likeOrUnlikeMessage caller shouldLike msg =
     (case findIndex (\<lambda>element. element = caller) (likes msg) of
        None \<Rightarrow> if shouldLike then (True, msg\<lparr>likes := likes msg @ [caller]\<rparr>) else (False, msg)
      | Some callerIndex \<Rightarrow>
          if shouldLike then (False, msg) else (True, msg\<lparr>likes := splice1 callerIndex (likes msg)\<rparr>))"

definition editMessage :: "nat \<Rightarrow> string \<Rightarrow> 'a Message_scheme \<Rightarrow> 'a Message_scheme" where
  "editMessage now newMessage msg =
     msg\<lparr>messageEditHistory := messageEditHistory msg @ [(now, message msg)],
         message := newMessage\<rparr>"

definition editTitle :: "nat \<Rightarrow> string \<Rightarrow> Topic \<Rightarrow> Topic" where
  "editTitle now newTitle topic =
     topic\<lparr>titleEditHistory := titleEditHistory topic @ [(now, title topic)],
           title := newTitle\<rparr>"

text \<open>
  \<^verbatim>\<open>validateCategoryInput\<close>: the field \<^verbatim>\<open>name\<close> of the request body is \<open>None\<close> when it is
  missing or not a string. \<^verbatim>\<open>trim\<close> removes white space, here the six ASCII white-space
  characters; the white space outside ASCII that JavaScript also trims is not covered.
  The general theorems below do not depend on which names the validation accepts; one
  example creates a category with an ASCII name.
\<close>

definition is_space :: "char \<Rightarrow> bool" where
  "is_space c = (c \<in> set [CHR '' '', CHR 0x09, CHR 0x0A, CHR 0x0B, CHR 0x0C, CHR 0x0D])"

definition validateCategoryInput :: "string option \<Rightarrow> string option" where
  "validateCategoryInput nameField =
     (case nameField of
        None \<Rightarrow> Some ''name is required and must be a non-empty string.''
      | Some n \<Rightarrow>
          if n = [] \<or> list_all is_space n
          then Some ''name is required and must be a non-empty string.''
          else None)"

subsection \<open>Request handlers\<close>

text \<open>
  One definition for each route that changes the state or reads content, named after
  what the route does. A body field that the handler checks with \<^verbatim>\<open>typeof\<close> is \<open>None\<close>
  when the check fails; \<^verbatim>\<open>newMessage\<close> and \<^verbatim>\<open>newTitle\<close> of the topic edit, declared
  \<^verbatim>\<open>string | null\<close> and compared with \<^verbatim>\<open>null\<close> only, are \<open>None\<close> for \<^verbatim>\<open>null\<close>. The
  other fields and the path parameters are strings, as declared. A request that leaves
  out a field of the topic edit, or gives it a value that is not a string, is not a
  request of the model: the code hands such a value to \<^verbatim>\<open>editMessage\<close> or \<^verbatim>\<open>editTitle\<close>,
  and a body or title that is not a string has no place in \<open>Message\<close> and \<open>Topic\<close>.

  The lookup answers the topic id \<^verbatim>\<open>topics\<close> with the category's map of topics. A
  handler that asked for a topic then holds a \<^verbatim>\<open>Map\<close> object: reading a field of a
  topic from it gives \<^verbatim>\<open>undefined\<close> unless a handler has assigned that property before,
  calling a method on \<^verbatim>\<open>undefined\<close> throws a \<^verbatim>\<open>TypeError\<close>, and assigning a field sets
  a property of the map. Of the three properties that get assigned (\<^verbatim>\<open>closed\<close>,
  \<^verbatim>\<open>pinned\<close>, \<^verbatim>\<open>message\<close>) the handlers read \<^verbatim>\<open>closed\<close> back, in the two edit routes.
\<close>

definition topicsObjectClosed :: "State \<Rightarrow> string \<Rightarrow> bool" where
  "topicsObjectClosed s cid =
     (case store_get (categoriesStorage s) cid of
        None \<Rightarrow> False
      | Some category \<Rightarrow> topicsClosed category = Some True)"

definition set_topics_property :: "string \<Rightarrow> (Category \<Rightarrow> Category) \<Rightarrow> State \<Rightarrow> State" where
  "set_topics_property cid f s =
     (case store_get (categoriesStorage s) cid of
        None \<Rightarrow> s
      | Some category \<Rightarrow> set_category cid (f category) s)"

definition getTopics :: "string \<Rightarrow> State \<Rightarrow> response \<times> State" where
  "getTopics cid s =
     (case getCategoryOrTopicOrPost s cid None None of
        Inl r \<Rightarrow> (r, s)
      | Inr (RCategory category) \<Rightarrow> (Sent 200 (IdsBody (sortTopicsByActivityAndPin category)), s)
      | Inr _ \<Rightarrow> (Crash ''unreachable'', s))"

definition send_resolved :: "resolved \<Rightarrow> response" where
  "send_resolved v =
     (case v of
        RCategory category \<Rightarrow> Sent 200 (CategoryBody category)
      | RTopics ts \<Rightarrow> Sent 200 (TopicsBody ts)
      | RTopic topic \<Rightarrow> Sent 200 (TopicBody topic)
      | RPost post \<Rightarrow> Sent 200 (PostBody post))"

definition getTopic :: "string \<Rightarrow> string \<Rightarrow> State \<Rightarrow> response \<times> State" where
  "getTopic cid tid s =
     (case getCategoryOrTopicOrPost s cid (Some tid) None of
        Inl r \<Rightarrow> (r, s)
      | Inr v \<Rightarrow> (send_resolved v, s))"

definition getPost :: "string \<Rightarrow> string \<Rightarrow> int \<Rightarrow> State \<Rightarrow> response \<times> State" where
  "getPost cid tid pid s =
     (case getCategoryOrTopicOrPost s cid (Some tid) (Some pid) of
        Inl r \<Rightarrow> (r, s)
      | Inr v \<Rightarrow> (send_resolved v, s))"

definition createCategory ::
  "string \<Rightarrow> nat \<Rightarrow> string \<Rightarrow> string option \<Rightarrow> State \<Rightarrow> response \<times> State" where
  "createCategory uuid now caller nameField s =
     (case validateCategoryInput nameField of
        Some validationError \<Rightarrow> (Sent 400 (Text validationError), s)
      | None \<Rightarrow>
          if \<not> checkIfAdmin s caller
          then (Sent 403 (Text ''You are not an admin, and cannot add a category''), s)
          else
            (case nameField of
               None \<Rightarrow> (Crash ''unreachable'', s)
             | Some n \<Rightarrow>
                 (let category = new_Category uuid n caller now
                  in (Sent 201 (CategoryBody category),
                      s\<lparr>categoriesStorage :=
                          store_insert (categoryIdent category) category (categoriesStorage s)\<rparr>))))"

definition createTopic ::
  "string \<Rightarrow> nat \<Rightarrow> string \<Rightarrow> string \<Rightarrow> string \<Rightarrow> string \<Rightarrow> State \<Rightarrow> response \<times> State" where
  "createTopic uuid now caller cid titleField messageField s =
     (case getCategoryOrTopicOrPost s cid None None of
        Inl r \<Rightarrow> (r, s)
      | Inr (RCategory category) \<Rightarrow>
          (let topic = new_Topic uuid titleField messageField (categoryIdent category) caller now;
               (category', topic') = acknowledgeTopicActivity now category topic
           in (Sent 201 (TopicBody topic'),
               set_category cid
                 (category'\<lparr>topics := (topics category')(ident topic \<mapsto> topic')\<rparr>) s))
      | Inr _ \<Rightarrow> (Crash ''unreachable'', s))"

definition createPost ::
  "string \<Rightarrow> nat \<Rightarrow> string \<Rightarrow> string \<Rightarrow> string \<Rightarrow> string \<Rightarrow> State \<Rightarrow> response \<times> State" where
  "createPost uuid now caller cid tid messageField s =
     (case getCategoryOrTopicOrPost s cid None None of
        Inl r \<Rightarrow> (r, s)
      | Inr (RCategory category) \<Rightarrow>
          (case getCategoryOrTopicOrPost s cid (Some tid) None of
             Inl r \<Rightarrow> (r, s)
           | Inr (RTopic topic) \<Rightarrow>
               (let post = new_Message uuid messageField caller now;
                    (category', topic') =
                       acknowledgeTopicActivity now category (topic\<lparr>posts := posts topic @ [post]\<rparr>)
                in (Sent 201 (PostBody post),
                    set_category cid
                      (category'\<lparr>topics := (topics category')(tid \<mapsto> topic')\<rparr>) s))
           | Inr (RTopics ts) \<Rightarrow> (Crash ''TypeError: topic.posts is undefined'', s)
           | Inr _ \<Rightarrow> (Crash ''unreachable'', s))
      | Inr _ \<Rightarrow> (Crash ''unreachable'', s))"

definition likeTopic :: "string \<Rightarrow> bool \<Rightarrow> string \<Rightarrow> string \<Rightarrow> State \<Rightarrow> response \<times> State" where
  "likeTopic caller shouldLike cid tid s =
     (case getCategoryOrTopicOrPost s cid (Some tid) None of
        Inl r \<Rightarrow> (r, s)
      | Inr (RTopic topic) \<Rightarrow>
          (let (isLiked, topic') = likeOrUnlikeMessage caller shouldLike topic
           in (if isLiked
               then Sent 200 (Text (if shouldLike then ''Topic liked'' else ''Like removed from topic''))
               else Sent 400 (Text (if shouldLike then ''Topic already liked'' else ''Topic was not liked'')),
               set_topic cid tid topic' s))
      | Inr (RTopics ts) \<Rightarrow> (Crash ''TypeError: message.likes is undefined'', s)
      | Inr _ \<Rightarrow> (Crash ''unreachable'', s))"

definition likePost ::
  "string \<Rightarrow> bool \<Rightarrow> string \<Rightarrow> string \<Rightarrow> int \<Rightarrow> State \<Rightarrow> response \<times> State" where
  "likePost caller shouldLike cid tid pid s =
     (case getCategoryOrTopicOrPost s cid (Some tid) (Some pid) of
        Inl r \<Rightarrow> (r, s)
      | Inr (RPost post) \<Rightarrow>
          (let (isLiked, post') = likeOrUnlikeMessage caller shouldLike post
           in (if isLiked
               then Sent 200 (Text (if shouldLike then ''Post liked'' else ''Like removed from post''))
               else Sent 400 (Text (if shouldLike then ''Post already liked'' else ''Post was not liked'')),
               set_post cid tid (nat pid) post' s))
      | Inr (RTopics ts) \<Rightarrow> (Crash ''TypeError: message.likes is undefined'', s)
      | Inr _ \<Rightarrow> (Crash ''unreachable'', s))"

text \<open>
  The topic edit and the post edit do not read the caller. Both test the flags of the
  topic; the post edit does not test the flags of the post.
\<close>

definition editTopic ::
  "nat \<Rightarrow> string \<Rightarrow> string \<Rightarrow> string option \<Rightarrow> string option \<Rightarrow> State \<Rightarrow> response \<times> State" where
  "editTopic now cid tid newMessage newTitle s =
     (case getCategoryOrTopicOrPost s cid (Some tid) None of
        Inl r \<Rightarrow> (r, s)
      | Inr (RTopic topic) \<Rightarrow>
          if \<not> closed topic then
            if \<not> messageDeleted topic then
              (let topic1 = (case newMessage of None \<Rightarrow> topic | Some m \<Rightarrow> editMessage now m topic);
                   topic2 = (case newTitle of None \<Rightarrow> topic1 | Some t \<Rightarrow> editTitle now t topic1)
               in (Sent 200 (Text ''Topic updated''), set_topic cid tid topic2 s))
            else (Sent 403 (Text ''This topic has been deleted''), s)
          else (Sent 403 (Text ''This topic has been closed''), s)
      | Inr (RTopics ts) \<Rightarrow>
          if \<not> topicsObjectClosed s cid then
            (case newMessage of
               Some m \<Rightarrow> (Crash ''TypeError: message.messageEditHistory is undefined'', s)
             | None \<Rightarrow>
                 (case newTitle of
                    Some t \<Rightarrow> (Crash ''TypeError: topic.titleEditHistory is undefined'', s)
                  | None \<Rightarrow> (Sent 200 (Text ''Topic updated''), s)))
          else (Sent 403 (Text ''This topic has been closed''), s)
      | Inr _ \<Rightarrow> (Crash ''unreachable'', s))"

definition pinTopic ::
  "string \<Rightarrow> string \<Rightarrow> string \<Rightarrow> bool option \<Rightarrow> State \<Rightarrow> response \<times> State" where
  "pinTopic caller cid tid shouldPinField s =
     (case shouldPinField of
        None \<Rightarrow> (Sent 400 (Text ''shouldPin was not provided or is not a boolean''), s)
      | Some shouldPin \<Rightarrow>
          if checkIfModerator s caller \<or> checkIfAdmin s caller then
            (case getCategoryOrTopicOrPost s cid None None of
               Inl r \<Rightarrow> (r, s)
             | Inr (RCategory category) \<Rightarrow>
                 (case getCategoryOrTopicOrPost s cid (Some tid) None of
                    Inl r \<Rightarrow> (r, s)
                  | Inr topicResult \<Rightarrow>
                      (let idv = (case topicResult of RTopic topic \<Rightarrow> Some (ident topic) | _ \<Rightarrow> None);
                           pinnedTopicsIndex =
                             findIndex (\<lambda>element. element = idv) (pinnedTopics category);
                           pinned' =
                             (case pinnedTopicsIndex of
                                Some i \<Rightarrow>
                                  if \<not> shouldPin then splice1 i (pinnedTopics category)
                                  else pinnedTopics category
                              | None \<Rightarrow>
                                  if shouldPin then pinnedTopics category @ [idv]
                                  else pinnedTopics category);
                           category' =
                             (case topicResult of
                                RTopic topic \<Rightarrow>
                                  category\<lparr>pinnedTopics := pinned',
                                     topics := (topics category)(tid \<mapsto> topic\<lparr>pinned := shouldPin\<rparr>)\<rparr>
                              | _ \<Rightarrow>
                                  category\<lparr>pinnedTopics := pinned', topicsPinned := Some shouldPin\<rparr>)
                       in (Sent 200 (Text (if shouldPin then ''Topic pinned'' else ''Topic unpinned'')),
                           set_category cid category' s)))
             | Inr _ \<Rightarrow> (Crash ''unreachable'', s))
          else (Sent 403 (Text ''You are not authorized to pin or unpin a topic''), s))"

definition closeTopic ::
  "string \<Rightarrow> string \<Rightarrow> string \<Rightarrow> bool option \<Rightarrow> State \<Rightarrow> response \<times> State" where
  "closeTopic caller cid tid shouldCloseField s =
     (case shouldCloseField of
        None \<Rightarrow> (Sent 400 (Text ''shouldClose was not provided or is not a boolean''), s)
      | Some shouldClose \<Rightarrow>
          if checkIfModerator s caller \<or> checkIfAdmin s caller then
            (case getCategoryOrTopicOrPost s cid (Some tid) None of
               Inl r \<Rightarrow> (r, s)
             | Inr (RTopic topic) \<Rightarrow>
                 (Sent 200 (Text (if shouldClose then ''Topic closed'' else ''Topic reopened'')),
                  set_topic cid tid (topic\<lparr>closed := shouldClose\<rparr>) s)
             | Inr _ \<Rightarrow>
                 (Sent 200 (Text (if shouldClose then ''Topic closed'' else ''Topic reopened'')),
                  set_topics_property cid
                    (\<lambda>category. category\<lparr>topicsClosed := Some shouldClose\<rparr>) s))
          else (Sent 403 (Text ''You are not authorized to close or reopen a topic''), s))"

definition editPost ::
  "nat \<Rightarrow> string \<Rightarrow> string \<Rightarrow> int \<Rightarrow> string option \<Rightarrow> State \<Rightarrow> response \<times> State" where
  "editPost now cid tid pid newMessageField s =
     (case newMessageField of
        None \<Rightarrow> (Sent 400 (Text ''newMessage was not provided or is not a string''), s)
      | Some newMessage \<Rightarrow>
          (case getCategoryOrTopicOrPost s cid (Some tid) None of
             Inl r \<Rightarrow> (r, s)
           | Inr (RTopic topic) \<Rightarrow>
               (case getCategoryOrTopicOrPost s cid (Some tid) (Some pid) of
                  Inl r \<Rightarrow> (r, s)
                | Inr (RPost post) \<Rightarrow>
                    if \<not> closed topic then
                      if \<not> messageDeleted topic then
                        (Sent 200 (Text ''Post updated''),
                         set_post cid tid (nat pid) (editMessage now newMessage post) s)
                      else (Sent 403 (Text ''This post has been deleted''), s)
                    else (Sent 403 (Text ''This post's topic has been closed''), s)
                | Inr _ \<Rightarrow> (Crash ''unreachable'', s))
           | Inr (RTopics ts) \<Rightarrow>
               if \<not> topicsObjectClosed s cid
               then (Crash ''TypeError: message.messageEditHistory is undefined'', s)
               else (Sent 403 (Text ''This post's topic has been closed''), s)
           | Inr _ \<Rightarrow> (Crash ''unreachable'', s)))"

definition deleteCategory :: "string \<Rightarrow> string \<Rightarrow> State \<Rightarrow> response \<times> State" where
  "deleteCategory caller cid s =
     (if checkIfAdmin s caller
      then (Sent 200 (Text ''Category deleted''),
            s\<lparr>categoriesStorage := store_remove cid (categoriesStorage s)\<rparr>)
      else (Sent 403 (Text ''You are not an admin, and cannot delete a category''), s))"

definition deletePost :: "string \<Rightarrow> string \<Rightarrow> string \<Rightarrow> int \<Rightarrow> State \<Rightarrow> response \<times> State" where
  "deletePost caller cid tid pid s =
     (case getCategoryOrTopicOrPost s cid (Some tid) None of
        Inl r \<Rightarrow> (r, s)
      | Inr topicResult \<Rightarrow>
          (case getCategoryOrTopicOrPost s cid (Some tid) (Some pid) of
             Inl r \<Rightarrow> (r, s)
           | Inr (RPost post) \<Rightarrow>
               if checkIfAuthorized s (createdBy post) caller
               then (Sent 200 (Text ''Post deleted''),
                     set_post cid tid (nat pid)
                       (post\<lparr>message := [], messageEditHistory := [], messageDeleted := True\<rparr>) s)
               else (Sent 403 (Text ''You are not authorized to delete this post''), s)
           | Inr _ \<Rightarrow>
               if checkIfAdmin s caller \<or> checkIfModerator s caller
               then (Crash ''TypeError: post.messageEditHistory is undefined'',
                     set_topics_property cid (\<lambda>category. category\<lparr>topicsMessage := Some []\<rparr>) s)
               else (Sent 403 (Text ''You are not authorized to delete this post''), s)))"

text \<open>The registry routes answer 200 with the address, or 403 with the error message.\<close>

definition registry_response :: "(string + string) \<times> State \<Rightarrow> response \<times> State" where
  "registry_response r =
     (case fst r of
        Inr v \<Rightarrow> (Sent 200 (Text v), snd r)
      | Inl e \<Rightarrow> (Sent 403 (Text e), snd r))"

subsection \<open>The server\<close>

text \<open>
  The routes of the \<^verbatim>\<open>express\<close> application that change the state or read content,
  with their path parameters and body fields. The routes that only list the keys or the
  values of a store are left out.
\<close>

datatype request =
    GetTopics string
  | GetTopic string string
  | GetPost string string int
  | PostCategory "string option"
  | PostTopic string string string
  | PostPost string string string
  | PostTopicLike string string
  | PostPostLike string string int
  | PutTopic string string "string option" "string option"
  | PutPin string string "bool option"
  | PutClose string string "bool option"
  | PutPost string string int "string option"
  | PutModerator string
  | PutAdmin string
  | PutBan string
  | DeleteCategory string
  | DeletePost string string int
  | DeleteModerator string
  | DeleteAdmin string
  | DeleteTopicLike string string
  | DeletePostLike string string int
  | DeleteBan string

text \<open>
  One request, run to completion: \<open>uuid\<close> is what \<^verbatim>\<open>uuidv4()\<close> returns during the
  request, \<open>now\<close> is its time and \<open>caller\<close> is \<^verbatim>\<open>ic.caller().toString()\<close>.
\<close>

fun handle :: "string \<Rightarrow> nat \<Rightarrow> string \<Rightarrow> request \<Rightarrow> State \<Rightarrow> response \<times> State" where
  "handle uuid now caller (GetTopics cid) s = getTopics cid s"
| "handle uuid now caller (GetTopic cid tid) s = getTopic cid tid s"
| "handle uuid now caller (GetPost cid tid pid) s = getPost cid tid pid s"
| "handle uuid now caller (PostCategory nameField) s = createCategory uuid now caller nameField s"
| "handle uuid now caller (PostTopic cid titleField messageField) s =
     createTopic uuid now caller cid titleField messageField s"
| "handle uuid now caller (PostPost cid tid messageField) s =
     createPost uuid now caller cid tid messageField s"
| "handle uuid now caller (PostTopicLike cid tid) s = likeTopic caller True cid tid s"
| "handle uuid now caller (PostPostLike cid tid pid) s = likePost caller True cid tid pid s"
| "handle uuid now caller (PutTopic cid tid newMessage newTitle) s =
     editTopic now cid tid newMessage newTitle s"
| "handle uuid now caller (PutPin cid tid shouldPin) s = pinTopic caller cid tid shouldPin s"
| "handle uuid now caller (PutClose cid tid shouldClose) s = closeTopic caller cid tid shouldClose s"
| "handle uuid now caller (PutPost cid tid pid newMessage) s = editPost now cid tid pid newMessage s"
| "handle uuid now caller (PutModerator address) s =
     registry_response (addModerator uuid address caller s)"
| "handle uuid now caller (PutAdmin address) s = registry_response (addAdmin uuid address caller s)"
| "handle uuid now caller (PutBan address) s = registry_response (banAddress uuid address caller s)"
| "handle uuid now caller (DeleteCategory cid) s = deleteCategory caller cid s"
| "handle uuid now caller (DeletePost cid tid pid) s = deletePost caller cid tid pid s"
| "handle uuid now caller (DeleteModerator address) s =
     registry_response (removeModerator address caller s)"
| "handle uuid now caller (DeleteAdmin address) s = registry_response (removeAdmin address caller s)"
| "handle uuid now caller (DeleteTopicLike cid tid) s = likeTopic caller False cid tid s"
| "handle uuid now caller (DeletePostLike cid tid pid) s = likePost caller False cid tid pid s"
| "handle uuid now caller (DeleteBan address) s = registry_response (unbanAddress address caller s)"

text \<open>
  \<^verbatim>\<open>uuidv4()\<close> returns an identifier that is not in use: here, not the key of a topic of
  any stored category.
\<close>

definition fresh_uuid :: "State \<Rightarrow> string \<Rightarrow> bool" where
  "fresh_uuid s uuid = list_all (\<lambda>(k, category). topics category uuid = None) (categoriesStorage s)"

text \<open>
  The states of the running canister. Its registry of admins cannot be filled by the
  routes themselves (\<open>addAdmin\<close> wants a caller who is an admin already), so a first
  state is any state without categories, whatever its registry holds.
\<close>

inductive reachable :: "State \<Rightarrow> bool" where
  initial: "categoriesStorage s = [] \<Longrightarrow> reachable s"
| request: "reachable s \<Longrightarrow> fresh_uuid s uuid \<Longrightarrow> reachable (snd (handle uuid now caller req s))"

subsection \<open>Sequences of calls\<close>

text \<open>The operations of the registry, each with the arguments of its call.\<close>

datatype registry_op =
    AddAdmin string string string
  | AddModerator string string string
  | RemoveAdmin string string
  | RemoveModerator string string
  | Ban string string string
  | Unban string string

fun registry_step :: "registry_op \<Rightarrow> State \<Rightarrow> State" where
  "registry_step (AddAdmin uuid address caller) s = snd (addAdmin uuid address caller s)"
| "registry_step (AddModerator uuid address caller) s = snd (addModerator uuid address caller s)"
| "registry_step (RemoveAdmin address caller) s = snd (removeAdmin address caller s)"
| "registry_step (RemoveModerator address caller) s = snd (removeModerator address caller s)"
| "registry_step (Ban uuid address caller) s = snd (banAddress uuid address caller s)"
| "registry_step (Unban address caller) s = snd (unbanAddress address caller s)"

fun registry_run :: "registry_op list \<Rightarrow> State \<Rightarrow> State" where
  "registry_run [] s = s"
| "registry_run (op # ops) s = registry_run ops (registry_step op s)"

text \<open>
  The role checks compare addresses without regard to the case of their letters: two
  addresses are the same address to them when their upper-case forms are equal.
\<close>

definition same_address :: "string \<Rightarrow> string \<Rightarrow> bool" where
  "same_address a b \<longleftrightarrow> toUpperCase a = toUpperCase b"

text \<open>
  No address of the Banned store is an admin or a moderator, as \<open>checkIfAdmin\<close> and
  \<open>checkIfModerator\<close> decide it: no value of the Admins or the Moderators store is the same
  address as a banned one, in any case of its letters.
\<close>

definition banned_disjoint :: "State \<Rightarrow> bool" where
  "banned_disjoint s =
     list_all (\<lambda>banned. \<not> checkIfAdmin s banned \<and> \<not> checkIfModerator s banned)
       (store_values (bannedAddressesStorage s))"

text \<open>
  A sequence of registry operations in which no call of \<open>addAdmin\<close> or \<open>addModerator\<close>
  names an address that is, in any case of its letters, the same address as one that is
  banned when the call is made.
\<close>

fun promotes_no_banned :: "registry_op list \<Rightarrow> State \<Rightarrow> bool" where
  "promotes_no_banned [] s = True"
| "promotes_no_banned (op # ops) s =
     ((case op of
         AddAdmin uuid address caller \<Rightarrow>
           \<not> list_ex (\<lambda>banned. same_address banned address)
               (store_values (bannedAddressesStorage s))
       | AddModerator uuid address caller \<Rightarrow>
           \<not> list_ex (\<lambda>banned. same_address banned address)
               (store_values (bannedAddressesStorage s))
       | _ \<Rightarrow> True)
      \<and> promotes_no_banned ops (registry_step op s))"

text \<open>Successive edits of the body of one topic, each with its time and its new body.\<close>

fun editTopicTimes :: "string \<Rightarrow> string \<Rightarrow> (nat \<times> string) list \<Rightarrow> State \<Rightarrow> State" where
  "editTopicTimes cid tid [] s = s"
| "editTopicTimes cid tid ((now, newBody) # es) s =
     editTopicTimes cid tid es (snd (editTopic now cid tid (Some newBody) None s))"

text \<open>
  The spec's reading of the topic list: the concatenation with every later occurrence of
  an element removed.
\<close>

fun dedup_first :: "'a list \<Rightarrow> 'a list" where
  "dedup_first [] = []"
| "dedup_first (x # xs) = x # dedup_first (removeAll x xs)"

definition listTopics_spec :: "Category \<Rightarrow> string option list" where
  "listTopics_spec category =
     dedup_first (pinnedTopics category @ map Some (mostRecentTopics category))"

subsection \<open>Reading the state\<close>

text \<open>The topic stored under a topic id of a category, and the post at a position of it.\<close>

definition topic_at :: "State \<Rightarrow> string \<Rightarrow> string \<Rightarrow> Topic option" where
  "topic_at s cid tid =
     (case store_get (categoriesStorage s) cid of
        None \<Rightarrow> None
      | Some category \<Rightarrow> topics category tid)"

definition post_at :: "State \<Rightarrow> string \<Rightarrow> string \<Rightarrow> nat \<Rightarrow> Message option" where
  "post_at s cid tid i =
     (case topic_at s cid tid of
        None \<Rightarrow> None
      | Some topic \<Rightarrow> if i < length (posts topic) then Some (posts topic ! i) else None)"

subsection \<open>The invariant of the pins\<close>

text \<open>
  The pins of a category are in order: \<open>pinnedTopics\<close> has no duplicates, every topic is
  stored under its own id and has its \<open>pinned\<close> flag set exactly when its id is in
  \<open>pinnedTopics\<close>, and every id in \<open>pinnedTopics\<close> is the id of a stored topic.
\<close>

definition pins_ok :: "Category \<Rightarrow> bool" where
  "pins_ok c \<longleftrightarrow>
     distinct (pinnedTopics c)
     \<and> (\<forall>k t. topics c k = Some t \<longrightarrow> ident t = k \<and> (pinned t \<longleftrightarrow> Some k \<in> set (pinnedTopics c)))
     \<and> (\<forall>k. Some k \<in> set (pinnedTopics c) \<longrightarrow> topics c k \<noteq> None)"

definition pins_inv :: "State \<Rightarrow> bool" where
  "pins_inv s \<longleftrightarrow> (\<forall>(k, c) \<in> set (categoriesStorage s). pins_ok c)"

subsection \<open>Example states\<close>

definition ex_registry :: State where
  "ex_registry =
     \<lparr>categoriesStorage = [], bannedAddressesStorage = [(''k3'', ''mallory'')],
      moderatorsStorage = [(''k2'', ''mod'')], adminsStorage = [(''k1'', ''root'')]\<rparr>"

definition ex_boot :: State where
  "ex_boot =
     \<lparr>categoriesStorage = [], bannedAddressesStorage = [],
      moderatorsStorage = [], adminsStorage = [(''k1'', ''root'')]\<rparr>"

definition ex_category :: Category where
  "ex_category =
     \<lparr>categoryIdent = ''c1'', name = ''General'', topics = Map.empty,
      pinnedTopics = [Some ''t2'', Some ''t1''], mostRecentTopics = [''t3'', ''t1'', ''t2''],
      categoryCreatedAt = 0, categoryCreatedBy = ''root'',
      topicsClosed = None, topicsPinned = None, topicsMessage = None\<rparr>"

definition ex_liked :: Message where
  "ex_liked = (new_Message ''p7'' ''hello'' ''bob'' 3)\<lparr>likes := [''alice'']\<rparr>"

definition ex_post0 :: Message where
  "ex_post0 = new_Message ''p0'' ''first'' ''alice'' 2"

definition ex_post1 :: Message where
  "ex_post1 = (new_Message ''p1'' [] ''bob'' 3)\<lparr>messageDeleted := True\<rparr>"

definition ex_topic :: Topic where
  "ex_topic = (new_Topic ''t1'' ''Hello'' ''hi'' ''c1'' ''alice'' 1)\<lparr>posts := [ex_post0, ex_post1]\<rparr>"

definition ex_forum_category :: Category where
  "ex_forum_category =
     (new_Category ''c1'' ''General'' ''root'' 0)
       \<lparr>topics := [''t1'' \<mapsto> ex_topic], mostRecentTopics := [''t1'']\<rparr>"

definition ex_forum :: State where
  "ex_forum =
     \<lparr>categoriesStorage = [(''c1'', ex_forum_category)],
      bannedAddressesStorage = [(''k3'', ''mallory'')],
      moderatorsStorage = [(''k2'', ''mod'')], adminsStorage = [(''k1'', ''root'')]\<rparr>"

text \<open>
  An admin creates a category, a user creates a topic in it and the admin pins the topic.
\<close>

definition ex_pinned :: State where
  "ex_pinned =
     snd (handle ''u3'' 3 ''root'' (PutPin ''c1'' ''t1'' (Some True))
       (snd (handle ''t1'' 2 ''alice'' (PostTopic ''c1'' ''Hello'' ''hi'')
         (snd (handle ''c1'' 1 ''root'' (PostCategory (Some ''General'')) ex_boot)))))"

definition ex_pinned_topic :: Topic where
  "ex_pinned_topic = (new_Topic ''t1'' ''Hello'' ''hi'' ''c1'' ''alice'' 2)\<lparr>pinned := True\<rparr>"

definition ex_pinned_category :: Category where
  "ex_pinned_category =
     (new_Category ''c1'' ''General'' ''root'' 1)
       \<lparr>topics := [''t1'' \<mapsto> ex_pinned_topic], pinnedTopics := [Some ''t1''],
        mostRecentTopics := [''t1'']\<rparr>"


section \<open>Properties\<close>

lemmas store_defs =
  store_insert_def store_get_def store_remove_def store_values_def store_entries_def

lemmas check_defs =
  checkIfAdmin_def checkIfModerator_def checkIfBanned_def checkIfAuthorized_def
  toUpperCase_def upper_char_def

lemmas registry_defs =
  addAdmin_def addModerator_def removeAdmin_def removeModerator_def
  banAddress_def unbanAddress_def

subsection \<open>The stores\<close>

lemma store_get_insert: "store_get (store_insert k v m) k = Some v"
  by (simp add: store_get_def store_insert_def update_conv')

lemma values_insert_mem: "v \<in> set (store_values (store_insert k v m))"
  by (induction m) (auto simp: store_values_def store_insert_def)

lemma set_values_insert_fresh:
  "k \<notin> fst ` set m \<Longrightarrow> set (store_values (store_insert k v m)) = insert v (set (store_values m))"
  by (induction m) (auto simp: store_values_def store_insert_def)

lemma values_insert_subset:
  "set (store_values (store_insert k v m)) \<subseteq> insert v (set (store_values m))"
  by (induction m) (auto simp: store_values_def store_insert_def)

lemma values_remove_subset: "set (store_values (store_remove k m)) \<subseteq> set (store_values m)"
  by (induction m) (auto simp: store_values_def store_remove_def)

subsection \<open>The registry\<close>

lemma checkIfBanned_iff:
  "checkIfBanned s a \<longleftrightarrow> a \<in> set (store_values (bannedAddressesStorage s))"
  by (auto simp: checkIfBanned_def list_ex_iff)

lemma checkIfAdmin_iff:
  "checkIfAdmin s a \<longleftrightarrow> (\<exists>x \<in> set (store_values (adminsStorage s)). same_address x a)"
  by (simp add: checkIfAdmin_def same_address_def list_ex_iff)

lemma checkIfModerator_iff:
  "checkIfModerator s a \<longleftrightarrow> (\<exists>x \<in> set (store_values (moderatorsStorage s)). same_address x a)"
  by (simp add: checkIfModerator_def same_address_def list_ex_iff)

lemma same_address_refl: "same_address a a"
  by (simp add: same_address_def)

lemma same_address_sym: "same_address a b \<Longrightarrow> same_address b a"
  by (simp add: same_address_def)

lemma banned_disjoint_iff:
  "banned_disjoint s \<longleftrightarrow>
     (\<forall>b \<in> set (store_values (bannedAddressesStorage s)).
        (\<forall>a \<in> set (store_values (adminsStorage s)). \<not> same_address a b) \<and>
        (\<forall>m \<in> set (store_values (moderatorsStorage s)). \<not> same_address m b))"
  by (auto simp: banned_disjoint_def list_all_iff checkIfAdmin_iff checkIfModerator_iff)

lemma banned_disjoint_exact:
  "banned_disjoint s \<Longrightarrow>
     set (store_values (bannedAddressesStorage s)) \<inter>
       (set (store_values (adminsStorage s)) \<union> set (store_values (moderatorsStorage s))) = {}"
  using same_address_refl by (fastforce simp: banned_disjoint_iff)

text \<open>
  Every registry operation keeps the banned addresses apart from the staff, unless it
  promotes an address that is the same address as one banned at that moment.
\<close>

lemma banned_disjoint_step:
  assumes d: "banned_disjoint s"
    and g: "case op of
           AddAdmin uuid address caller \<Rightarrow>
             \<not> list_ex (\<lambda>banned. same_address banned address)
                 (store_values (bannedAddressesStorage s))
         | AddModerator uuid address caller \<Rightarrow>
             \<not> list_ex (\<lambda>banned. same_address banned address)
                 (store_values (bannedAddressesStorage s))
         | _ \<Rightarrow> True"
  shows "banned_disjoint (registry_step op s)"
proof (cases op)
  case (AddAdmin uuid address caller)
  have n: "\<forall>b \<in> set (store_values (bannedAddressesStorage s)). \<not> same_address address b"
    using g AddAdmin same_address_sym by (auto simp: list_ex_iff)
  show ?thesis
    using d n AddAdmin values_insert_subset [of uuid address "adminsStorage s"]
    by (auto simp: banned_disjoint_iff addAdmin_def)
next
  case (AddModerator uuid address caller)
  have n: "\<forall>b \<in> set (store_values (bannedAddressesStorage s)). \<not> same_address address b"
    using g AddModerator same_address_sym by (auto simp: list_ex_iff)
  show ?thesis
    using d n AddModerator values_insert_subset [of uuid address "moderatorsStorage s"]
    by (auto simp: banned_disjoint_iff addModerator_def)
next
  case (RemoveAdmin address caller)
  show ?thesis
    using d RemoveAdmin values_remove_subset [of _ "adminsStorage s"]
    by (fastforce simp: banned_disjoint_iff removeAdmin_def split: option.splits)
next
  case (RemoveModerator address caller)
  show ?thesis
    using d RemoveModerator values_remove_subset [of _ "moderatorsStorage s"]
    by (fastforce simp: banned_disjoint_iff removeModerator_def split: option.splits)
next
  case (Ban uuid address caller)
  show ?thesis
  proof (cases "snd (banAddress uuid address caller s) = s")
    case True
    then show ?thesis using d Ban by simp
  next
    case False
    then have a: "\<not> checkIfAdmin s address" and m: "\<not> checkIfModerator s address"
      and s': "snd (banAddress uuid address caller s) =
          s\<lparr>bannedAddressesStorage := store_insert uuid address (bannedAddressesStorage s)\<rparr>"
      by (auto simp: banAddress_def split: if_splits)
    show ?thesis
      using d a m values_insert_subset [of uuid address "bannedAddressesStorage s"]
      by (auto simp: Ban s' banned_disjoint_iff checkIfAdmin_iff checkIfModerator_iff)
  qed
next
  case (Unban address caller)
  show ?thesis
    using d Unban values_remove_subset [of _ "bannedAddressesStorage s"]
    by (fastforce simp: banned_disjoint_iff unbanAddress_def split: option.splits)
qed

text \<open>
  No route can fill an empty registry: every registry operation wants a caller who is
  an admin or a moderator already.
\<close>

lemma empty_registry_stuck:
  assumes "adminsStorage s = []" and "moderatorsStorage s = []"
  shows "registry_step op s = s"
  using assms by (cases op) (simp_all add: registry_defs check_defs store_defs)

text \<open>
  Claim C3, as stated: in every state reached from a registry that keeps the banned
  addresses apart from the admins and moderators, by any sequence of \<open>addAdmin\<close>,
  \<open>addModerator\<close>, \<open>removeAdmin\<close>, \<open>removeModerator\<close>, \<open>ban\<close> and \<open>unban\<close>, no banned
  address is an admin or a moderator. It fails: an admin bans an address and then makes
  it a moderator. \<open>addModerator\<close> and \<open>addAdmin\<close> do not look at the Banned store.
\<close>

theorem registry_banned_disjoint_counterexample:
  "banned_disjoint ex_boot \<and>
   ''eve'' \<in> set (store_values (bannedAddressesStorage
      (registry_run [Ban ''u1'' ''eve'' ''root'', AddModerator ''u2'' ''eve'' ''root''] ex_boot))) \<and>
   ''eve'' \<in> set (store_values (moderatorsStorage
      (registry_run [Ban ''u1'' ''eve'' ''root'', AddModerator ''u2'' ''eve'' ''root''] ex_boot))) \<and>
   \<not> banned_disjoint
      (registry_run [Ban ''u1'' ''eve'' ''root'', AddModerator ''u2'' ''eve'' ''root''] ex_boot)"
  by (simp add: ex_boot_def banned_disjoint_def registry_defs check_defs store_defs)

text \<open>
  Claim C3, amended: in every state reached from such a registry by a sequence of
  registry operations in which \<open>addAdmin\<close> and \<open>addModerator\<close> are never called for an
  address that is, in any case of its letters, the same address as one banned at the
  time of the call, no address of the Banned store is an admin or a moderator: none
  passes \<open>checkIfAdmin\<close> or \<open>checkIfModerator\<close>, which compare without regard to case,
  and so none is a value of the Admins or the Moderators store. Nothing in the proof
  depends on which letters \<open>toUpperCase\<close> maps.
\<close>

theorem registry_banned_disjoint:
  "banned_disjoint s \<Longrightarrow> promotes_no_banned ops s \<Longrightarrow>
   banned_disjoint (registry_run ops s)
   \<and> (\<forall>banned \<in> set (store_values (bannedAddressesStorage (registry_run ops s))).
         \<not> checkIfAdmin (registry_run ops s) banned \<and> \<not> checkIfModerator (registry_run ops s) banned)
   \<and> set (store_values (bannedAddressesStorage (registry_run ops s))) \<inter>
       (set (store_values (adminsStorage (registry_run ops s))) \<union>
        set (store_values (moderatorsStorage (registry_run ops s)))) = {}"
proof (induction ops arbitrary: s)
  case Nil
  then show ?case
    using banned_disjoint_exact [of s] by (simp add: banned_disjoint_def list_all_iff)
next
  case (Cons op ops)
  from Cons.prems have "banned_disjoint (registry_step op s)"
    by (intro banned_disjoint_step) (auto split: registry_op.splits)
  moreover from Cons.prems have "promotes_no_banned ops (registry_step op s)" by simp
  ultimately show ?case using Cons.IH by simp
qed

theorem registry_banned_disjoint_witness:
  "banned_disjoint ex_boot \<and>
   promotes_no_banned
     [Ban ''u1'' ''eve'' ''root'', AddModerator ''u2'' ''bob'' ''root'', Unban ''eve'' ''bob'',
      AddAdmin ''u3'' ''EVE'' ''root'', Ban ''u4'' ''mallory'' ''Eve''] ex_boot \<and>
   banned_disjoint
     (registry_run
        [Ban ''u1'' ''eve'' ''root'', AddModerator ''u2'' ''bob'' ''root'', Unban ''eve'' ''bob'',
         AddAdmin ''u3'' ''EVE'' ''root'', Ban ''u4'' ''mallory'' ''Eve''] ex_boot) \<and>
   store_values (adminsStorage
     (registry_run
        [Ban ''u1'' ''eve'' ''root'', AddModerator ''u2'' ''bob'' ''root'', Unban ''eve'' ''bob'',
         AddAdmin ''u3'' ''EVE'' ''root'', Ban ''u4'' ''mallory'' ''Eve''] ex_boot)) = [''root'', ''EVE''] \<and>
   store_values (bannedAddressesStorage
     (registry_run
        [Ban ''u1'' ''eve'' ''root'', AddModerator ''u2'' ''bob'' ''root'', Unban ''eve'' ''bob'',
         AddAdmin ''u3'' ''EVE'' ''root'', Ban ''u4'' ''mallory'' ''Eve''] ex_boot)) = [''mallory''] \<and>
   \<not> promotes_no_banned [Ban ''u1'' ''eve'' ''root'', AddModerator ''u2'' ''EVE'' ''root''] ex_boot"
proof -
  let ?ops = "[Ban ''u1'' ''eve'' ''root'', AddModerator ''u2'' ''bob'' ''root'', Unban ''eve'' ''bob'',
      AddAdmin ''u3'' ''EVE'' ''root'', Ban ''u4'' ''mallory'' ''Eve'']"
  have d: "banned_disjoint ex_boot"
    by (simp add: ex_boot_def banned_disjoint_def store_defs)
  have p: "promotes_no_banned ?ops ex_boot"
    by (simp add: ex_boot_def registry_defs check_defs store_defs same_address_def)
  have v: "store_values (adminsStorage (registry_run ?ops ex_boot)) = [''root'', ''EVE'']
      \<and> store_values (bannedAddressesStorage (registry_run ?ops ex_boot)) = [''mallory'']"
    by (simp add: ex_boot_def registry_defs check_defs store_defs)
  have q: "\<not> promotes_no_banned [Ban ''u1'' ''eve'' ''root'', AddModerator ''u2'' ''EVE'' ''root''] ex_boot"
    by (simp add: ex_boot_def registry_defs check_defs store_defs same_address_def)
  show ?thesis using d p v q registry_banned_disjoint [OF d p] by simp
qed

text \<open>
  Claim C4: \<open>banAddress\<close> makes its checks in this order. A caller who is neither admin
  nor moderator gets the error of a forbidden call, whatever the target is. Otherwise a
  target who is admin or moderator gets the error that staff cannot be banned, whether
  or not the target is banned already. Otherwise a target who is banned already gets the
  error of the conflict. Otherwise the call returns the address and inserts it into the
  Banned store under the new key, leaving the rest of the state alone. An error leaves
  the whole state alone.
\<close>

theorem banAddress_check_order:
  "(\<not> checkIfAdmin s caller \<and> \<not> checkIfModerator s caller \<longrightarrow>
      banAddress uuid address caller s = (Inl ''You are not authorized to ban this address'', s))
   \<and> ((checkIfAdmin s caller \<or> checkIfModerator s caller) \<and>
       (checkIfAdmin s address \<or> checkIfModerator s address) \<longrightarrow>
      banAddress uuid address caller s = (Inl ''Cannot ban an admin or moderator'', s))
   \<and> ((checkIfAdmin s caller \<or> checkIfModerator s caller) \<and>
       \<not> (checkIfAdmin s address \<or> checkIfModerator s address) \<and> checkIfBanned s address \<longrightarrow>
      banAddress uuid address caller s = (Inl ''Address is already banned'', s))
   \<and> ((checkIfAdmin s caller \<or> checkIfModerator s caller) \<and>
       \<not> (checkIfAdmin s address \<or> checkIfModerator s address) \<and> \<not> checkIfBanned s address \<longrightarrow>
      fst (banAddress uuid address caller s) = Inr address \<and>
      snd (banAddress uuid address caller s) =
        s\<lparr>bannedAddressesStorage := store_insert uuid address (bannedAddressesStorage s)\<rparr> \<and>
      store_get (bannedAddressesStorage (snd (banAddress uuid address caller s))) uuid = Some address \<and>
      checkIfBanned (snd (banAddress uuid address caller s)) address \<and>
      (uuid \<notin> fst ` set (bannedAddressesStorage s) \<longrightarrow>
         set (store_values (bannedAddressesStorage (snd (banAddress uuid address caller s)))) =
           insert address (set (store_values (bannedAddressesStorage s)))))"
  by (auto simp: banAddress_def checkIfBanned_iff store_get_insert values_insert_mem
      set_values_insert_fresh)

theorem banAddress_check_order_witness:
  "banAddress ''u1'' ''root'' ''eve'' ex_registry =
     (Inl ''You are not authorized to ban this address'', ex_registry)
   \<and> banAddress ''u1'' ''MOD'' ''root'' ex_registry =
     (Inl ''Cannot ban an admin or moderator'', ex_registry)
   \<and> banAddress ''u1'' ''mallory'' ''mod'' ex_registry =
     (Inl ''Address is already banned'', ex_registry)
   \<and> fst (banAddress ''u1'' ''bob'' ''ROOT'' ex_registry) = Inr ''bob''
   \<and> store_values (bannedAddressesStorage (snd (banAddress ''u1'' ''bob'' ''ROOT'' ex_registry))) =
       [''mallory'', ''bob'']"
  using banAddress_check_order
      [where s = ex_registry and caller = "''eve''" and uuid = "''u1''" and address = "''root''"]
    banAddress_check_order
      [where s = ex_registry and caller = "''root''" and uuid = "''u1''" and address = "''MOD''"]
    banAddress_check_order
      [where s = ex_registry and caller = "''mod''" and uuid = "''u1''" and address = "''mallory''"]
    banAddress_check_order
      [where s = ex_registry and caller = "''ROOT''" and uuid = "''u1''" and address = "''bob''"]
  by (simp add: ex_registry_def check_defs store_defs)

subsection \<open>The list of topics\<close>

lemma set_dedup_first: "set (dedup_first xs) = set xs"
  by (induction xs rule: dedup_first.induct) auto

lemma distinct_dedup_first: "distinct (dedup_first xs)"
  by (induction xs rule: dedup_first.induct) (auto simp: set_dedup_first)

lemma dedup_first_distinct: "distinct xs \<Longrightarrow> dedup_first xs = xs"
  by (induction xs) auto

lemma removeAll_filter_conj: "removeAll x (filter P xs) = filter (\<lambda>y. P y \<and> y \<noteq> x) xs"
  by (induction xs) auto

text \<open>The loop of \<open>sortTopicsByActivityAndPin\<close>, started with any list collected so far.\<close>

lemma push_unique_foldl:
  "foldl (\<lambda>acc t. if t \<in> set acc then acc else acc @ [t]) acc xs =
     acc @ dedup_first (filter (\<lambda>t. t \<notin> set acc) xs)"
proof (induction xs arbitrary: acc)
  case Nil
  then show ?case by simp
next
  case (Cons x xs)
  show ?case
  proof (cases "x \<in> set acc")
    case True
    then show ?thesis using Cons.IH [of acc] by simp
  next
    case False
    have "filter (\<lambda>t. t \<notin> set (acc @ [x])) xs = removeAll x (filter (\<lambda>t. t \<notin> set acc) xs)"
      by (simp add: removeAll_filter_conj conj_commute)
    then show ?thesis using False Cons.IH [of "acc @ [x]"] by simp
  qed
qed

lemma sortTopics_split:
  "sortTopicsByActivityAndPin c =
     dedup_first (pinnedTopics c) @
     dedup_first (filter (\<lambda>t. t \<notin> set (pinnedTopics c)) (map Some (mostRecentTopics c)))"
proof -
  let ?push = "\<lambda>acc t. if t \<in> set acc then acc else acc @ [t]"
  have "foldl ?push [] (pinnedTopics c) = dedup_first (pinnedTopics c)"
    using push_unique_foldl [of "[]" "pinnedTopics c"] by simp
  then have "sortTopicsByActivityAndPin c =
      foldl ?push (dedup_first (pinnedTopics c)) (map Some (mostRecentTopics c))"
    by (simp add: sortTopicsByActivityAndPin_def)
  then show ?thesis
    by (simp only: push_unique_foldl set_dedup_first)
qed

lemma sortTopics_refines: "sortTopicsByActivityAndPin c = listTopics_spec c"
  using push_unique_foldl [of "[]" "pinnedTopics c @ map Some (mostRecentTopics c)"]
  by (simp add: sortTopicsByActivityAndPin_def listTopics_spec_def)

lemma append_precedes:
  assumes "r = a @ b" and "i < length r" and "j < length r"
    and "r ! i \<in> P" and "r ! j \<notin> P" and "set a \<subseteq> P" and "set b \<inter> P = {}"
  shows "i < j"
proof -
  have "i < length a"
  proof (rule ccontr)
    assume "\<not> i < length a"
    with assms(1,2) have "r ! i \<in> set b"
      by (simp add: nth_append)
    with assms(4,7) show False by auto
  qed
  moreover have "\<not> j < length a"
  proof
    assume "j < length a"
    with assms(1) have "r ! j \<in> set a" by (simp add: nth_append)
    with assms(5,6) show False by auto
  qed
  ultimately show ?thesis by simp
qed

text \<open>
  Claim C5: for every category, \<open>sortTopicsByActivityAndPin\<close> returns \<open>pinnedTopics\<close>
  followed by \<open>mostRecentTopics\<close> with every later occurrence of an id removed. The
  result has no duplicates and holds exactly the ids of the two lists; every id of
  \<open>pinnedTopics\<close> comes before every id that is not in \<open>pinnedTopics\<close>; the result starts
  with the pinned ids at their first pin positions, followed by the recent ids that are
  not pinned, so a topic that is pinned and recent is listed once, among the pinned ones.
  When \<open>pinnedTopics\<close> has no duplicates, the result starts with \<open>pinnedTopics\<close> itself.
\<close>

theorem listTopics_pinned_first:
  "sortTopicsByActivityAndPin c = listTopics_spec c
   \<and> distinct (sortTopicsByActivityAndPin c)
   \<and> set (sortTopicsByActivityAndPin c) = set (pinnedTopics c) \<union> Some ` set (mostRecentTopics c)
   \<and> (\<forall>i j. i < length (sortTopicsByActivityAndPin c) \<and> j < length (sortTopicsByActivityAndPin c)
          \<and> sortTopicsByActivityAndPin c ! i \<in> set (pinnedTopics c)
          \<and> sortTopicsByActivityAndPin c ! j \<notin> set (pinnedTopics c) \<longrightarrow> i < j)
   \<and> sortTopicsByActivityAndPin c =
        dedup_first (pinnedTopics c) @
        dedup_first (filter (\<lambda>t. t \<notin> set (pinnedTopics c)) (map Some (mostRecentTopics c)))
   \<and> (distinct (pinnedTopics c) \<longrightarrow>
        sortTopicsByActivityAndPin c =
          pinnedTopics c @
          dedup_first (filter (\<lambda>t. t \<notin> set (pinnedTopics c)) (map Some (mostRecentTopics c))))"
proof (intro conjI allI impI)
  show "sortTopicsByActivityAndPin c = listTopics_spec c" by (rule sortTopics_refines)
  show "distinct (sortTopicsByActivityAndPin c)"
    by (simp add: sortTopics_refines listTopics_spec_def distinct_dedup_first)
  show "set (sortTopicsByActivityAndPin c) = set (pinnedTopics c) \<union> Some ` set (mostRecentTopics c)"
    by (simp add: sortTopics_refines listTopics_spec_def set_dedup_first)
  show "sortTopicsByActivityAndPin c =
        dedup_first (pinnedTopics c) @
        dedup_first (filter (\<lambda>t. t \<notin> set (pinnedTopics c)) (map Some (mostRecentTopics c)))"
    by (rule sortTopics_split)
next
  fix i j
  assume a: "i < length (sortTopicsByActivityAndPin c) \<and> j < length (sortTopicsByActivityAndPin c)
          \<and> sortTopicsByActivityAndPin c ! i \<in> set (pinnedTopics c)
          \<and> sortTopicsByActivityAndPin c ! j \<notin> set (pinnedTopics c)"
  show "i < j"
    by (rule append_precedes [OF sortTopics_split [of c], of i j "set (pinnedTopics c)"])
       (use a in \<open>auto simp: set_dedup_first\<close>)
next
  assume "distinct (pinnedTopics c)"
  then show "sortTopicsByActivityAndPin c =
          pinnedTopics c @
          dedup_first (filter (\<lambda>t. t \<notin> set (pinnedTopics c)) (map Some (mostRecentTopics c)))"
    using sortTopics_split [of c] by (simp add: dedup_first_distinct)
qed

theorem listTopics_pinned_first_witness:
  "sortTopicsByActivityAndPin ex_category = [Some ''t2'', Some ''t1'', Some ''t3'']
   \<and> distinct (pinnedTopics ex_category)
   \<and> sortTopicsByActivityAndPin ex_category ! 1 \<in> set (pinnedTopics ex_category)
   \<and> sortTopicsByActivityAndPin ex_category ! 2 \<notin> set (pinnedTopics ex_category)
   \<and> listTopics_spec ex_category = [Some ''t2'', Some ''t1'', Some ''t3'']"
  using listTopics_pinned_first [of ex_category]
  by (simp add: ex_category_def sortTopicsByActivityAndPin_def listTopics_spec_def)

subsection \<open>Likes\<close>

lemma findIndex_None_iff: "findIndex P xs = None \<longleftrightarrow> (\<forall>x \<in> set xs. \<not> P x)"
  by (induction xs) (auto split: option.splits)

lemma findIndex_Some_less: "findIndex P xs = Some i \<Longrightarrow> i < length xs \<and> P (xs ! i)"
  by (induction xs arbitrary: i) (auto split: if_splits option.splits)

lemma findIndex_append_last:
  "\<forall>x \<in> set xs. \<not> P x \<Longrightarrow> P y \<Longrightarrow> findIndex P (xs @ [y]) = Some (length xs)"
  by (induction xs) auto

lemma splice1_append_last: "splice1 (length xs) (xs @ [y]) = xs"
  by (simp add: splice1_def)

text \<open>
  Claim C6, as stated: for every message and every caller, a like followed by an unlike
  of the same caller leaves the likes as they were before the like. It fails for a caller
  who likes the message already: the like is refused and changes nothing, the unlike then
  removes the caller.
\<close>

theorem like_unlike_counterexample:
  "fst (likeOrUnlikeMessage ''alice'' True ex_liked) = False
   \<and> fst (likeOrUnlikeMessage ''alice'' False (snd (likeOrUnlikeMessage ''alice'' True ex_liked))) = True
   \<and> likes ex_liked = [''alice'']
   \<and> likes (snd (likeOrUnlikeMessage ''alice'' False
               (snd (likeOrUnlikeMessage ''alice'' True ex_liked)))) = []
   \<and> likes (snd (likeOrUnlikeMessage ''alice'' False
               (snd (likeOrUnlikeMessage ''alice'' True ex_liked)))) \<noteq> likes ex_liked"
  by (simp add: ex_liked_def new_Message_def likeOrUnlikeMessage_def splice1_def)

text \<open>
  Claim C6, amended: for every message whose likes do not hold the caller yet, the like
  succeeds and adds the caller at the end, and the unlike that follows succeeds and
  leaves the message exactly as it was before the like. For every message and every
  caller, a second like right after a like is refused (the route answers that the
  message is already liked) and leaves the message unchanged.
\<close>

theorem like_unlike_round_trip:
  "(caller \<notin> set (likes m) \<longrightarrow>
      fst (likeOrUnlikeMessage caller True m) = True
      \<and> likes (snd (likeOrUnlikeMessage caller True m)) = likes m @ [caller]
      \<and> fst (likeOrUnlikeMessage caller False (snd (likeOrUnlikeMessage caller True m))) = True
      \<and> snd (likeOrUnlikeMessage caller False (snd (likeOrUnlikeMessage caller True m))) = m)
   \<and> fst (likeOrUnlikeMessage caller True (snd (likeOrUnlikeMessage caller True m))) = False
   \<and> snd (likeOrUnlikeMessage caller True (snd (likeOrUnlikeMessage caller True m))) =
       snd (likeOrUnlikeMessage caller True m)"
proof (cases "caller \<in> set (likes m)")
  case True
  then obtain i where "findIndex (\<lambda>element. element = caller) (likes m) = Some i"
    using findIndex_None_iff [of "\<lambda>element. element = caller" "likes m"] by auto
  with True show ?thesis by (simp add: likeOrUnlikeMessage_def)
next
  case False
  then have n: "findIndex (\<lambda>element. element = caller) (likes m) = None"
    by (auto simp: findIndex_None_iff)
  from False have a: "findIndex (\<lambda>element. element = caller) (likes m @ [caller]) = Some (length (likes m))"
    by (intro findIndex_append_last) auto
  show ?thesis using False n a
    by (simp add: likeOrUnlikeMessage_def splice1_append_last)
qed

theorem like_unlike_round_trip_witness:
  "''bob'' \<notin> set (likes ex_liked)
   \<and> likes (snd (likeOrUnlikeMessage ''bob'' True ex_liked)) = [''alice'', ''bob'']
   \<and> snd (likeOrUnlikeMessage ''bob'' False (snd (likeOrUnlikeMessage ''bob'' True ex_liked))) = ex_liked
   \<and> fst (likeOrUnlikeMessage ''bob'' True (snd (likeOrUnlikeMessage ''bob'' True ex_liked))) = False"
proof -
  have h: "''bob'' \<notin> set (likes ex_liked)"
    by (simp add: ex_liked_def new_Message_def)
  show ?thesis
    using h like_unlike_round_trip [of "''bob''" ex_liked]
    by (simp add: ex_liked_def new_Message_def)
qed

subsection \<open>Lookup\<close>

lemmas ex_forum_defs =
  ex_forum_def ex_forum_category_def ex_topic_def ex_post0_def ex_post1_def
  new_Category_def new_Topic_def new_Message_def

text \<open>
  Claim C9, as stated: for every category id, topic id and post index the lookup reports
  the first missing level, the category, then the topic, then the post. It fails for the
  topic id \<^verbatim>\<open>topics\<close>: the category of the example has no topic of that name, and the
  lookup returns the category's map of topics, with or without a post index.
\<close>

theorem resolve_topics_counterexample:
  "topics ex_forum_category ''topics'' = None
   \<and> getCategoryOrTopicOrPost ex_forum ''c1'' (Some ''topics'') None =
       Inr (RTopics (topics ex_forum_category))
   \<and> getCategoryOrTopicOrPost ex_forum ''c1'' (Some ''topics'') (Some 7) =
       Inr (RTopics (topics ex_forum_category))"
  by (simp add: getCategoryOrTopicOrPost_def ex_forum_def ex_forum_category_def store_get_def)

text \<open>
  Claim C9, amended: a category id that is not stored is reported as category not found,
  whatever the other arguments are. For a stored category, the lookup without a topic id
  returns the category; the topic id \<^verbatim>\<open>topics\<close> returns the category's map of topics,
  whatever the post index is; any other topic id that is not a key of the map is
  reported as topic not found, whatever the post index is; a topic that is found is
  returned when no post index is given; a post index is a zero-based position in the
  topic's posts, an index outside them is reported as post not found, and an index
  inside them returns the post at that position, soft-deleted or not.
\<close>

theorem resolve_first_missing_level:
  "(store_get (categoriesStorage s) cid = None \<longrightarrow>
      getCategoryOrTopicOrPost s cid topicArg postArg =
        Inl (Sent 404 (Text (''Category with id='' @ cid @ '' not found''))))
   \<and> (\<forall>c. store_get (categoriesStorage s) cid = Some c \<longrightarrow>
        getCategoryOrTopicOrPost s cid None postArg = Inr (RCategory c)
        \<and> getCategoryOrTopicOrPost s cid (Some ''topics'') postArg = Inr (RTopics (topics c))
        \<and> (tid \<noteq> ''topics'' \<and> topics c tid = None \<longrightarrow>
             getCategoryOrTopicOrPost s cid (Some tid) postArg =
               Inl (Sent 404 (Text (''Topic with id='' @ tid @ '' not found''))))
        \<and> (\<forall>t. tid \<noteq> ''topics'' \<and> topics c tid = Some t \<longrightarrow>
             getCategoryOrTopicOrPost s cid (Some tid) None = Inr (RTopic t)
             \<and> (\<not> (0 \<le> pid \<and> nat pid < length (posts t)) \<longrightarrow>
                  getCategoryOrTopicOrPost s cid (Some tid) (Some pid) =
                    Inl (Sent 404 (PostNotFound pid)))
             \<and> (0 \<le> pid \<and> nat pid < length (posts t) \<longrightarrow>
                  getCategoryOrTopicOrPost s cid (Some tid) (Some pid) =
                    Inr (RPost (posts t ! nat pid)))))"
  by (simp add: getCategoryOrTopicOrPost_def)

theorem resolve_first_missing_level_witness:
  "getCategoryOrTopicOrPost ex_forum ''c9'' (Some ''t9'') (Some 9) =
     Inl (Sent 404 (Text ''Category with id=c9 not found''))
   \<and> getCategoryOrTopicOrPost ex_forum ''c1'' (Some ''t9'') (Some 9) =
     Inl (Sent 404 (Text ''Topic with id=t9 not found''))
   \<and> getCategoryOrTopicOrPost ex_forum ''c1'' (Some ''t1'') (Some 2) =
     Inl (Sent 404 (PostNotFound 2))
   \<and> getCategoryOrTopicOrPost ex_forum ''c1'' (Some ''t1'') (Some (- 1)) =
     Inl (Sent 404 (PostNotFound (- 1)))
   \<and> messageDeleted ex_post1 \<and> message ex_post1 = []
   \<and> getCategoryOrTopicOrPost ex_forum ''c1'' (Some ''t1'') (Some 1) = Inr (RPost ex_post1)
   \<and> getCategoryOrTopicOrPost ex_forum ''c1'' (Some ''t1'') None = Inr (RTopic ex_topic)
   \<and> getCategoryOrTopicOrPost ex_forum ''c1'' None None = Inr (RCategory ex_forum_category)"
proof -
  have c9: "store_get (categoriesStorage ex_forum) ''c9'' = None"
    by (simp add: ex_forum_def store_get_def)
  have c1: "store_get (categoriesStorage ex_forum) ''c1'' = Some ex_forum_category"
    by (simp add: ex_forum_def store_get_def)
  have t9: "topics ex_forum_category ''t9'' = None"
    by (simp add: ex_forum_category_def)
  have t1: "topics ex_forum_category ''t1'' = Some ex_topic"
    by (simp add: ex_forum_category_def)
  have p: "posts ex_topic = [ex_post0, ex_post1]"
    by (simp add: ex_topic_def)
  have d: "messageDeleted ex_post1 \<and> message ex_post1 = []"
    by (simp add: ex_post1_def new_Message_def)
  show ?thesis
    using c9 c1 t9 t1 p d
      resolve_first_missing_level [where s = ex_forum and cid = "''c9''" and topicArg = "Some ''t9''" and postArg = "Some 9"]
      resolve_first_missing_level [where s = ex_forum and cid = "''c1''" and tid = "''t9''" and postArg = "Some 9"]
      resolve_first_missing_level [where s = ex_forum and cid = "''c1''" and tid = "''t1''" and pid = 2 and postArg = None]
      resolve_first_missing_level [where s = ex_forum and cid = "''c1''" and tid = "''t1''" and pid = "- 1"]
      resolve_first_missing_level [where s = ex_forum and cid = "''c1''" and tid = "''t1''" and pid = 1]
    by simp
qed

subsection \<open>Writing back\<close>

lemma set_category_registry [simp]:
  "adminsStorage (set_category cid c s) = adminsStorage s"
  "moderatorsStorage (set_category cid c s) = moderatorsStorage s"
  "bannedAddressesStorage (set_category cid c s) = bannedAddressesStorage s"
  by (simp_all add: set_category_def)

lemma set_topic_registry [simp]:
  "adminsStorage (set_topic cid tid t s) = adminsStorage s"
  "moderatorsStorage (set_topic cid tid t s) = moderatorsStorage s"
  "bannedAddressesStorage (set_topic cid tid t s) = bannedAddressesStorage s"
  by (simp_all add: set_topic_def split: option.splits)

lemma set_post_registry [simp]:
  "adminsStorage (set_post cid tid i p s) = adminsStorage s"
  "moderatorsStorage (set_post cid tid i p s) = moderatorsStorage s"
  "bannedAddressesStorage (set_post cid tid i p s) = bannedAddressesStorage s"
  by (simp_all add: set_post_def split: option.splits)

lemma get_set_category:
  "store_get (categoriesStorage (set_category cid c s)) cid' =
     (if cid' = cid then Some c else store_get (categoriesStorage s) cid')"
  by (simp add: set_category_def store_get_def update_conv')

lemma set_category_same:
  "store_get (categoriesStorage s) cid = Some c \<Longrightarrow> set_category cid c s = s"
  by (simp add: set_category_def store_get_def update_triv)

lemma topic_at_set_topic:
  "store_get (categoriesStorage s) cid = Some c \<Longrightarrow>
   topic_at (set_topic cid tid t s) cid' tid' =
     (if cid' = cid \<and> tid' = tid then Some t else topic_at s cid' tid')"
  by (simp add: topic_at_def set_topic_def get_set_category)

lemma set_topic_same: "topic_at s cid tid = Some t \<Longrightarrow> set_topic cid tid t s = s"
  by (auto simp: topic_at_def set_topic_def set_category_same map_upd_triv split: option.splits)

lemma set_post_eq:
  "topic_at s cid tid = Some t \<Longrightarrow>
   set_post cid tid i p s = set_topic cid tid (t\<lparr>posts := (posts t)[i := p]\<rparr>) s"
  by (auto simp: topic_at_def set_post_def split: option.splits)

lemma topic_at_Some_category:
  "topic_at s cid tid = Some t \<Longrightarrow> \<exists>c. store_get (categoriesStorage s) cid = Some c \<and> topics c tid = Some t"
  by (auto simp: topic_at_def split: option.splits)

lemma resolve_topic:
  "topic_at s cid tid = Some t \<Longrightarrow> tid \<noteq> ''topics'' \<Longrightarrow>
   getCategoryOrTopicOrPost s cid (Some tid) None = Inr (RTopic t)"
  by (auto simp: topic_at_def getCategoryOrTopicOrPost_def split: option.splits)

lemma resolve_post:
  "topic_at s cid tid = Some t \<Longrightarrow> tid \<noteq> ''topics'' \<Longrightarrow> i < length (posts t) \<Longrightarrow>
   getCategoryOrTopicOrPost s cid (Some tid) (Some (int i)) = Inr (RPost (posts t ! i))"
  by (auto simp: topic_at_def getCategoryOrTopicOrPost_def split: option.splits)

lemma resolve_category:
  "store_get (categoriesStorage s) cid = Some c \<Longrightarrow>
   getCategoryOrTopicOrPost s cid None None = Inr (RCategory c)"
  by (simp add: getCategoryOrTopicOrPost_def)

lemma checks_set_topic [simp]:
  "checkIfAdmin (set_topic cid tid t s) a = checkIfAdmin s a"
  "checkIfModerator (set_topic cid tid t s) a = checkIfModerator s a"
  by (simp_all add: checkIfAdmin_def checkIfModerator_def)

subsection \<open>Deleting a post\<close>

lemma deletePost_ok:
  assumes t: "topic_at s cid tid = Some t" and n: "tid \<noteq> ''topics''" and i: "i < length (posts t)"
    and a: "checkIfAuthorized s (createdBy (posts t ! i)) caller"
  shows "deletePost caller cid tid (int i) s =
     (Sent 200 (Text ''Post deleted''),
      set_topic cid tid
        (t\<lparr>posts := (posts t)[i := (posts t ! i)
            \<lparr>message := [], messageEditHistory := [], messageDeleted := True\<rparr>]\<rparr>) s)"
  using a by (simp add: deletePost_def resolve_topic [OF t n] resolve_post [OF t n i] set_post_eq [OF t])

text \<open>
  Claim C8: deleting a post, by a caller who may delete it, answers 200, empties the
  body of the post, clears its edit history and sets its deleted flag. The post stays at
  its position, the topic keeps the number of its posts, every other post stays as it
  was at its position, and nothing else of the topic changes. Deleting the same post
  again succeeds for every caller who may delete it and leaves the state exactly as the
  first deletion left it, so nothing of the earlier body or history comes back.
\<close>

theorem deletePost_soft:
  assumes "topic_at s cid tid = Some t" and "tid \<noteq> ''topics''" and "i < length (posts t)"
    and "checkIfAuthorized s (createdBy (posts t ! i)) caller"
  shows "fst (deletePost caller cid tid (int i) s) = Sent 200 (Text ''Post deleted'')
    \<and> (\<exists>t'. topic_at (snd (deletePost caller cid tid (int i) s)) cid tid = Some t'
          \<and> length (posts t') = length (posts t)
          \<and> posts t' ! i =
              (posts t ! i)\<lparr>message := [], messageEditHistory := [], messageDeleted := True\<rparr>
          \<and> (\<forall>j < length (posts t). j \<noteq> i \<longrightarrow> posts t' ! j = posts t ! j)
          \<and> t' = t\<lparr>posts := posts t'\<rparr>)
    \<and> deletePost caller' cid tid (int i) (snd (deletePost caller cid tid (int i) s)) =
        (if checkIfAuthorized s (createdBy (posts t ! i)) caller'
         then (Sent 200 (Text ''Post deleted''), snd (deletePost caller cid tid (int i) s))
         else (Sent 403 (Text ''You are not authorized to delete this post''),
               snd (deletePost caller cid tid (int i) s)))"
proof -
  let ?p = "(posts t ! i)\<lparr>message := [], messageEditHistory := [], messageDeleted := True\<rparr>"
  let ?t = "t\<lparr>posts := (posts t)[i := ?p]\<rparr>"
  let ?s = "set_topic cid tid ?t s"
  obtain c where c: "store_get (categoriesStorage s) cid = Some c"
    using assms(1) topic_at_Some_category by blast
  have d: "deletePost caller cid tid (int i) s = (Sent 200 (Text ''Post deleted''), ?s)"
    by (rule deletePost_ok [OF assms])
  have t': "topic_at ?s cid tid = Some ?t"
    by (simp add: topic_at_set_topic [OF c])
  have i': "i < length (posts ?t)" using assms(3) by simp
  have p': "posts ?t ! i = ?p" using assms(3) by simp
  have auth: "checkIfAuthorized ?s (createdBy (posts ?t ! i)) caller' =
      checkIfAuthorized s (createdBy (posts t ! i)) caller'"
    using assms(3) by (simp add: checkIfAuthorized_def)
  have again: "deletePost caller' cid tid (int i) ?s =
      (if checkIfAuthorized s (createdBy (posts t ! i)) caller'
       then (Sent 200 (Text ''Post deleted''), ?s)
       else (Sent 403 (Text ''You are not authorized to delete this post''), ?s))"
  proof (cases "checkIfAuthorized s (createdBy (posts t ! i)) caller'")
    case True
    then have "checkIfAuthorized ?s (createdBy (posts ?t ! i)) caller'" using auth by simp
    from deletePost_ok [OF t' assms(2) i' this]
    have "deletePost caller' cid tid (int i) ?s =
        (Sent 200 (Text ''Post deleted''), set_topic cid tid ?t ?s)"
      using assms(3) by simp
    then show ?thesis using True set_topic_same [OF t'] by simp
  next
    case False
    then have "\<not> checkIfAuthorized ?s (createdBy (posts ?t ! i)) caller'" using auth by simp
    then show ?thesis using False
      by (simp add: deletePost_def resolve_topic [OF t' assms(2)] resolve_post [OF t' assms(2) i'])
  qed
  show ?thesis
    unfolding d using t' assms(3) again by (simp add: nth_list_update)
qed


lemmas handler_defs =
  getCategoryOrTopicOrPost_def set_category_def set_topic_def set_post_def
  acknowledgeTopicActivity_def likeOrUnlikeMessage_def editMessage_def editTitle_def
  splice1_def topic_at_def post_at_def

theorem deletePost_soft_witness:
  "topic_at ex_forum ''c1'' ''t1'' = Some ex_topic
   \<and> checkIfAuthorized ex_forum (createdBy (posts ex_topic ! 0)) ''alice''
   \<and> fst (deletePost ''alice'' ''c1'' ''t1'' 0 ex_forum) = Sent 200 (Text ''Post deleted'')
   \<and> post_at (snd (deletePost ''alice'' ''c1'' ''t1'' 0 ex_forum)) ''c1'' ''t1'' 0 =
       Some (ex_post0\<lparr>message := [], messageEditHistory := [], messageDeleted := True\<rparr>)
   \<and> post_at (snd (deletePost ''alice'' ''c1'' ''t1'' 0 ex_forum)) ''c1'' ''t1'' 1 = Some ex_post1
   \<and> fst (deletePost ''mod'' ''c1'' ''t1'' 0 (snd (deletePost ''alice'' ''c1'' ''t1'' 0 ex_forum))) =
       Sent 200 (Text ''Post deleted'')
   \<and> snd (deletePost ''mod'' ''c1'' ''t1'' 0 (snd (deletePost ''alice'' ''c1'' ''t1'' 0 ex_forum))) =
       snd (deletePost ''alice'' ''c1'' ''t1'' 0 ex_forum)"
proof -
  have t: "topic_at ex_forum ''c1'' ''t1'' = Some ex_topic"
    by (simp add: topic_at_def ex_forum_def ex_forum_category_def store_get_def)
  have n: "''t1'' \<noteq> ''topics''" by simp
  have i: "0 < length (posts ex_topic)" by (simp add: ex_topic_def)
  have a: "checkIfAuthorized ex_forum (createdBy (posts ex_topic ! 0)) ''alice''"
    by (simp add: checkIfAuthorized_def ex_topic_def ex_post0_def new_Message_def)
  have m: "checkIfAuthorized ex_forum (createdBy (posts ex_topic ! 0)) ''mod''"
    by (simp add: check_defs ex_forum_def store_defs)
  have p: "post_at (snd (deletePost ''alice'' ''c1'' ''t1'' 0 ex_forum)) ''c1'' ''t1'' 0 =
       Some (ex_post0\<lparr>message := [], messageEditHistory := [], messageDeleted := True\<rparr>)
     \<and> post_at (snd (deletePost ''alice'' ''c1'' ''t1'' 0 ex_forum)) ''c1'' ''t1'' 1 = Some ex_post1"
    by (simp add: deletePost_def handler_defs check_defs store_defs ex_forum_defs)
  show ?thesis
    using t a m p deletePost_soft [OF t n i a, of "''mod''"] by simp
qed

subsection \<open>Editing\<close>

text \<open>
  Claim C1 says that the topic edit and the post edit succeed only for the caller who
  created the content and reject every other caller with Forbidden, leaving the content
  unchanged. The handlers never read the caller: in the example, \<open>bob\<close>, who is neither
  admin nor moderator, edits the topic and the post that \<open>alice\<close> created; both edits
  answer 200 and replace the body.
\<close>

theorem edit_by_other_caller_succeeds:
  "createdBy ex_topic = ''alice''
   \<and> \<not> checkIfAdmin ex_forum ''bob'' \<and> \<not> checkIfModerator ex_forum ''bob''
   \<and> fst (handle ''u1'' 9 ''bob'' (PutTopic ''c1'' ''t1'' (Some ''defaced'') None) ex_forum) =
       Sent 200 (Text ''Topic updated'')
   \<and> topic_at (snd (handle ''u1'' 9 ''bob'' (PutTopic ''c1'' ''t1'' (Some ''defaced'') None) ex_forum))
       ''c1'' ''t1'' =
       Some (ex_topic\<lparr>message := ''defaced'', messageEditHistory := [(9, ''hi'')]\<rparr>)
   \<and> createdBy ex_post0 = ''alice''
   \<and> fst (handle ''u1'' 9 ''bob'' (PutPost ''c1'' ''t1'' 0 (Some ''defaced'')) ex_forum) =
       Sent 200 (Text ''Post updated'')
   \<and> post_at (snd (handle ''u1'' 9 ''bob'' (PutPost ''c1'' ''t1'' 0 (Some ''defaced'')) ex_forum))
       ''c1'' ''t1'' 0 =
       Some (ex_post0\<lparr>message := ''defaced'', messageEditHistory := [(9, ''first'')]\<rparr>)"
  by (simp add: editTopic_def editPost_def handler_defs check_defs store_defs ex_forum_defs)

subsection \<open>Creating content and liking\<close>

lemma likeOrUnlikeMessage_fst:
  "fst (likeOrUnlikeMessage caller shouldLike m) = (shouldLike \<noteq> (caller \<in> set (likes m)))"
proof (cases "findIndex (\<lambda>element. element = caller) (likes m)")
  case None
  then have "caller \<notin> set (likes m)" by (auto simp: findIndex_None_iff)
  with None show ?thesis by (simp add: likeOrUnlikeMessage_def)
next
  case (Some i)
  then have "caller \<in> set (likes m)"
    using findIndex_None_iff [of "\<lambda>element. element = caller" "likes m"] by auto
  with Some show ?thesis by (simp add: likeOrUnlikeMessage_def)
qed

lemma createTopic_ok:
  assumes "store_get (categoriesStorage s) cid = Some c"
  shows "fst (createTopic uuid now caller cid ti me s) =
           Sent 201 (TopicBody (new_Topic uuid ti me (categoryIdent c) caller now))"
    and "topic_at (snd (createTopic uuid now caller cid ti me s)) cid uuid =
           Some (new_Topic uuid ti me (categoryIdent c) caller now)"
  using assms
  by (simp_all add: createTopic_def resolve_category acknowledgeTopicActivity_def new_Topic_def
      topic_at_def get_set_category Let_def)

lemma createPost_ok:
  assumes "topic_at s cid tid = Some t" and "tid \<noteq> ''topics''"
  shows "fst (createPost uuid now caller cid tid me s) =
           Sent 201 (PostBody (new_Message uuid me caller now))"
    and "topic_at (snd (createPost uuid now caller cid tid me s)) cid tid =
           Some (t\<lparr>posts := posts t @ [new_Message uuid me caller now], mostRecentActivity := now\<rparr>)"
proof -
  obtain c where c: "store_get (categoriesStorage s) cid = Some c"
    using assms(1) topic_at_Some_category by blast
  show "fst (createPost uuid now caller cid tid me s) =
           Sent 201 (PostBody (new_Message uuid me caller now))"
    by (simp add: createPost_def resolve_category [OF c] resolve_topic [OF assms]
        acknowledgeTopicActivity_def Let_def)
  show "topic_at (snd (createPost uuid now caller cid tid me s)) cid tid =
           Some (t\<lparr>posts := posts t @ [new_Message uuid me caller now], mostRecentActivity := now\<rparr>)"
    by (simp add: createPost_def resolve_category [OF c] resolve_topic [OF assms]
        acknowledgeTopicActivity_def topic_at_def get_set_category Let_def)
qed

lemma likeTopic_ok:
  assumes "topic_at s cid tid = Some t" and "tid \<noteq> ''topics''"
  shows "fst (likeTopic caller True cid tid s) =
           (if caller \<in> set (likes t) then Sent 400 (Text ''Topic already liked'')
            else Sent 200 (Text ''Topic liked''))"
    and "fst (likeTopic caller False cid tid s) =
           (if caller \<in> set (likes t) then Sent 200 (Text ''Like removed from topic'')
            else Sent 400 (Text ''Topic was not liked''))"
    and "topic_at (snd (likeTopic caller shouldLike cid tid s)) cid tid =
           Some (snd (likeOrUnlikeMessage caller shouldLike t))"
proof -
  obtain c where c: "store_get (categoriesStorage s) cid = Some c"
    using assms(1) topic_at_Some_category by blast
  show "fst (likeTopic caller True cid tid s) =
           (if caller \<in> set (likes t) then Sent 400 (Text ''Topic already liked'')
            else Sent 200 (Text ''Topic liked''))"
    using likeOrUnlikeMessage_fst [of caller True t]
    by (simp add: likeTopic_def resolve_topic [OF assms] case_prod_beta Let_def)
  show "fst (likeTopic caller False cid tid s) =
           (if caller \<in> set (likes t) then Sent 200 (Text ''Like removed from topic'')
            else Sent 400 (Text ''Topic was not liked''))"
    using likeOrUnlikeMessage_fst [of caller False t]
    by (simp add: likeTopic_def resolve_topic [OF assms] case_prod_beta Let_def)
  show "topic_at (snd (likeTopic caller shouldLike cid tid s)) cid tid =
           Some (snd (likeOrUnlikeMessage caller shouldLike t))"
    by (simp add: likeTopic_def resolve_topic [OF assms] topic_at_set_topic [OF c] case_prod_beta Let_def)
qed

lemma likePost_ok:
  assumes "topic_at s cid tid = Some t" and "tid \<noteq> ''topics''" and "i < length (posts t)"
  shows "fst (likePost caller True cid tid (int i) s) =
           (if caller \<in> set (likes (posts t ! i)) then Sent 400 (Text ''Post already liked'')
            else Sent 200 (Text ''Post liked''))"
    and "fst (likePost caller False cid tid (int i) s) =
           (if caller \<in> set (likes (posts t ! i)) then Sent 200 (Text ''Like removed from post'')
            else Sent 400 (Text ''Post was not liked''))"
    and "post_at (snd (likePost caller shouldLike cid tid (int i) s)) cid tid i =
           Some (snd (likeOrUnlikeMessage caller shouldLike (posts t ! i)))"
proof -
  obtain c where c: "store_get (categoriesStorage s) cid = Some c"
    using assms(1) topic_at_Some_category by blast
  show "fst (likePost caller True cid tid (int i) s) =
           (if caller \<in> set (likes (posts t ! i)) then Sent 400 (Text ''Post already liked'')
            else Sent 200 (Text ''Post liked''))"
    using likeOrUnlikeMessage_fst [of caller True "posts t ! i"]
    by (simp add: likePost_def resolve_post [OF assms] case_prod_beta Let_def)
  show "fst (likePost caller False cid tid (int i) s) =
           (if caller \<in> set (likes (posts t ! i)) then Sent 200 (Text ''Like removed from post'')
            else Sent 400 (Text ''Post was not liked''))"
    using likeOrUnlikeMessage_fst [of caller False "posts t ! i"]
    by (simp add: likePost_def resolve_post [OF assms] case_prod_beta Let_def)
  show "post_at (snd (likePost caller shouldLike cid tid (int i) s)) cid tid i =
           Some (snd (likeOrUnlikeMessage caller shouldLike (posts t ! i)))"
    using assms(3)
    by (simp add: likePost_def resolve_post [OF assms] set_post_eq [OF assms(1)] post_at_def
        topic_at_set_topic [OF c] split: prod.splits)
qed

text \<open>
  Claim C2, as stated: for every caller whose address is in the Banned store, topic
  creation, post creation and like and unlike are rejected. It fails: \<open>mallory\<close> is
  banned in the example and creates a topic, creates a post, likes a topic, takes the
  like back and likes a post, each with a success answer. No route reads the Banned
  store; \<open>checkIfBanned\<close> is called by \<open>banAddress\<close> alone.
\<close>

theorem banned_caller_counterexample:
  "checkIfBanned ex_forum ''mallory''
   \<and> fst (handle ''u1'' 9 ''mallory'' (PostTopic ''c1'' ''Spam'' ''buy'') ex_forum) =
       Sent 201 (TopicBody (new_Topic ''u1'' ''Spam'' ''buy'' ''c1'' ''mallory'' 9))
   \<and> topic_at (snd (handle ''u1'' 9 ''mallory'' (PostTopic ''c1'' ''Spam'' ''buy'') ex_forum))
       ''c1'' ''u1'' = Some (new_Topic ''u1'' ''Spam'' ''buy'' ''c1'' ''mallory'' 9)
   \<and> fst (handle ''u1'' 9 ''mallory'' (PostPost ''c1'' ''t1'' ''buy'') ex_forum) =
       Sent 201 (PostBody (new_Message ''u1'' ''buy'' ''mallory'' 9))
   \<and> post_at (snd (handle ''u1'' 9 ''mallory'' (PostPost ''c1'' ''t1'' ''buy'') ex_forum))
       ''c1'' ''t1'' 2 = Some (new_Message ''u1'' ''buy'' ''mallory'' 9)
   \<and> fst (handle ''u1'' 9 ''mallory'' (PostTopicLike ''c1'' ''t1'') ex_forum) =
       Sent 200 (Text ''Topic liked'')
   \<and> fst (handle ''u1'' 9 ''mallory'' (DeleteTopicLike ''c1'' ''t1'')
            (snd (handle ''u1'' 9 ''mallory'' (PostTopicLike ''c1'' ''t1'') ex_forum))) =
       Sent 200 (Text ''Like removed from topic'')
   \<and> fst (handle ''u1'' 9 ''mallory'' (PostPostLike ''c1'' ''t1'' 0) ex_forum) =
       Sent 200 (Text ''Post liked'')"
  by (simp add: createTopic_def createPost_def likeTopic_def likePost_def handler_defs check_defs
      store_defs ex_forum_defs Let_def case_prod_beta)

text \<open>
  Claim C2, amended: topic creation, post creation and like and unlike are permitted for
  every caller, banned or not, subject only to the target existing and, for likes, to
  the toggle state. Creating a topic in a stored category answers 201 and stores the new
  topic under its new id; creating a post in a stored topic answers 201 and appends the
  post; a like succeeds when the caller is not among the likes of the topic or post and is
  refused otherwise, an unlike the other way round, and the state holds the message as
  \<open>likeOrUnlikeMessage\<close> leaves it.
\<close>

theorem content_requests_ignore_bans:
  "(\<forall>c. store_get (categoriesStorage s) cid = Some c \<longrightarrow>
      fst (handle uuid now caller (PostTopic cid ti me) s) =
        Sent 201 (TopicBody (new_Topic uuid ti me (categoryIdent c) caller now))
      \<and> topic_at (snd (handle uuid now caller (PostTopic cid ti me) s)) cid uuid =
        Some (new_Topic uuid ti me (categoryIdent c) caller now))
   \<and> (\<forall>t. topic_at s cid tid = Some t \<and> tid \<noteq> ''topics'' \<longrightarrow>
        fst (handle uuid now caller (PostPost cid tid me) s) =
          Sent 201 (PostBody (new_Message uuid me caller now))
        \<and> topic_at (snd (handle uuid now caller (PostPost cid tid me) s)) cid tid =
          Some (t\<lparr>posts := posts t @ [new_Message uuid me caller now], mostRecentActivity := now\<rparr>)
        \<and> fst (handle uuid now caller (PostTopicLike cid tid) s) =
          (if caller \<in> set (likes t) then Sent 400 (Text ''Topic already liked'')
           else Sent 200 (Text ''Topic liked''))
        \<and> topic_at (snd (handle uuid now caller (PostTopicLike cid tid) s)) cid tid =
          Some (snd (likeOrUnlikeMessage caller True t))
        \<and> fst (handle uuid now caller (DeleteTopicLike cid tid) s) =
          (if caller \<in> set (likes t) then Sent 200 (Text ''Like removed from topic'')
           else Sent 400 (Text ''Topic was not liked''))
        \<and> topic_at (snd (handle uuid now caller (DeleteTopicLike cid tid) s)) cid tid =
          Some (snd (likeOrUnlikeMessage caller False t))
        \<and> (i < length (posts t) \<longrightarrow>
             fst (handle uuid now caller (PostPostLike cid tid (int i)) s) =
               (if caller \<in> set (likes (posts t ! i)) then Sent 400 (Text ''Post already liked'')
                else Sent 200 (Text ''Post liked''))
             \<and> post_at (snd (handle uuid now caller (PostPostLike cid tid (int i)) s)) cid tid i =
               Some (snd (likeOrUnlikeMessage caller True (posts t ! i)))
             \<and> fst (handle uuid now caller (DeletePostLike cid tid (int i)) s) =
               (if caller \<in> set (likes (posts t ! i)) then Sent 200 (Text ''Like removed from post'')
                else Sent 400 (Text ''Post was not liked''))
             \<and> post_at (snd (handle uuid now caller (DeletePostLike cid tid (int i)) s)) cid tid i =
               Some (snd (likeOrUnlikeMessage caller False (posts t ! i)))))"
  by (simp add: createTopic_ok createPost_ok likeTopic_ok likePost_ok)


theorem content_requests_ignore_bans_witness:
  "checkIfBanned ex_forum ''mallory''
   \<and> store_get (categoriesStorage ex_forum) ''c1'' = Some ex_forum_category
   \<and> topic_at ex_forum ''c1'' ''t1'' = Some ex_topic
   \<and> (0::nat) < length (posts ex_topic)
   \<and> fst (handle ''u1'' 9 ''mallory'' (PostTopic ''c1'' ''Spam'' ''buy'') ex_forum) =
       Sent 201 (TopicBody (new_Topic ''u1'' ''Spam'' ''buy'' ''c1'' ''mallory'' 9))
   \<and> fst (handle ''u1'' 9 ''mallory'' (PostPost ''c1'' ''t1'' ''buy'') ex_forum) =
       Sent 201 (PostBody (new_Message ''u1'' ''buy'' ''mallory'' 9))
   \<and> fst (handle ''u1'' 9 ''mallory'' (PostTopicLike ''c1'' ''t1'') ex_forum) =
       Sent 200 (Text ''Topic liked'')
   \<and> fst (handle ''u1'' 9 ''mallory'' (DeleteTopicLike ''c1'' ''t1'') ex_forum) =
       Sent 400 (Text ''Topic was not liked'')
   \<and> fst (handle ''u1'' 9 ''mallory'' (PostPostLike ''c1'' ''t1'' 0) ex_forum) =
       Sent 200 (Text ''Post liked'')"
proof -
  have b: "checkIfBanned ex_forum ''mallory''"
    by (simp add: checkIfBanned_def ex_forum_def store_values_def)
  have c: "store_get (categoriesStorage ex_forum) ''c1'' = Some ex_forum_category"
    by (simp add: ex_forum_def store_get_def)
  have t: "topic_at ex_forum ''c1'' ''t1'' = Some ex_topic"
    by (simp add: topic_at_def c ex_forum_category_def)
  have i: "(0::nat) < length (posts ex_topic)"
    by (simp add: ex_topic_def)
  have l: "likes ex_topic = [] \<and> likes (posts ex_topic ! 0) = []
      \<and> categoryIdent ex_forum_category = ''c1''"
    by (simp add: ex_forum_defs)
  show ?thesis
    using b c t i l
      content_requests_ignore_bans [where s = ex_forum and cid = "''c1''" and tid = "''t1''"
        and caller = "''mallory''" and i = 0 and uuid = "''u1''" and now = 9
        and ti = "''Spam''" and me = "''buy''"]
    by simp
qed

subsection \<open>The edit history\<close>

lemma editTopic_body:
  assumes "topic_at s cid tid = Some t" and "tid \<noteq> ''topics''"
    and "\<not> closed t" and "\<not> messageDeleted t"
  shows "editTopic now cid tid (Some b) None s =
     (Sent 200 (Text ''Topic updated''), set_topic cid tid (editMessage now b t) s)"
  using assms(3,4) by (simp add: editTopic_def resolve_topic [OF assms(1,2)])

lemma editTopicTimes_topic:
  assumes "topic_at s cid tid = Some t" and "tid \<noteq> ''topics''"
    and "\<not> closed t" and "\<not> messageDeleted t"
  shows "topic_at (editTopicTimes cid tid es s) cid tid =
     Some (foldl (\<lambda>t e. editMessage (fst e) (snd e) t) t es)"
  using assms
proof (induction es arbitrary: s t)
  case Nil
  then show ?case by simp
next
  case (Cons e es)
  obtain now b where e: "e = (now, b)" by (cases e)
  obtain c where c: "store_get (categoriesStorage s) cid = Some c"
    using Cons.prems(1) topic_at_Some_category by blast
  let ?t = "editMessage now b t"
  let ?s = "set_topic cid tid ?t s"
  have step: "editTopicTimes cid tid (e # es) s = editTopicTimes cid tid es ?s"
    by (simp add: e editTopic_body [OF Cons.prems])
  have t': "topic_at ?s cid tid = Some ?t"
    by (simp add: topic_at_set_topic [OF c])
  have flags: "\<not> closed ?t" "\<not> messageDeleted ?t"
    using Cons.prems(3,4) by (simp_all add: editMessage_def)
  show ?case
    unfolding step using Cons.IH [OF t' Cons.prems(2) flags] by (simp add: e)
qed

lemma edits_history:
  "messageEditHistory (foldl (\<lambda>t e. editMessage (fst e) (snd e) t) t es) =
     messageEditHistory t @ zip (map fst es) (butlast (message t # map snd es))
   \<and> message (foldl (\<lambda>t e. editMessage (fst e) (snd e) t) t es) = last (message t # map snd es)"
proof (induction es arbitrary: t)
  case Nil
  then show ?case by simp
next
  case (Cons e es)
  show ?case
    using Cons.IH [of "editMessage (fst e) (snd e) t"] by (simp add: editMessage_def)
qed

text \<open>
  Claim C7: for every stored topic that is open and not deleted and whose edit history
  is empty, and for every number of successive edits of its body through the topic edit
  route, the topic afterwards has an edit history with one entry for each edit, the
  entry of the k-th edit holds the time of that edit and the body as it was right before
  it (the first body for the first edit, the body submitted by the edit before for every
  later one), and the body of the topic is the one submitted last.
\<close>

theorem editTopic_history:
  assumes "topic_at s cid tid = Some t" and "tid \<noteq> ''topics''"
    and "\<not> closed t" and "\<not> messageDeleted t" and "messageEditHistory t = []"
  shows "\<exists>t'. topic_at (editTopicTimes cid tid es s) cid tid = Some t'
     \<and> length (messageEditHistory t') = length es
     \<and> (\<forall>k < length es. messageEditHistory t' ! k = (fst (es ! k), (message t # map snd es) ! k))
     \<and> message t' = last (message t # map snd es)"
proof -
  let ?t = "foldl (\<lambda>t e. editMessage (fst e) (snd e) t) t es"
  have h: "messageEditHistory ?t = zip (map fst es) (butlast (message t # map snd es))"
    using edits_history [of t es] assms(5) by simp
  have "length (messageEditHistory ?t) = length es"
    by (simp add: h)
  moreover have "\<forall>k < length es.
      messageEditHistory ?t ! k = (fst (es ! k), (message t # map snd es) ! k)"
  proof (intro allI impI)
    fix k
    assume k: "k < length es"
    then have "k < length (butlast (message t # map snd es))" by auto
    then have "butlast (message t # map snd es) ! k = (message t # map snd es) ! k"
      by (rule nth_butlast)
    with k show "messageEditHistory ?t ! k = (fst (es ! k), (message t # map snd es) ! k)"
      by (simp add: h del: butlast.simps)
  qed
  moreover have "message ?t = last (message t # map snd es)"
    using edits_history [of t es] by simp
  ultimately show ?thesis
    using editTopicTimes_topic [OF assms(1-4), of es] by blast
qed

theorem editTopic_history_witness:
  "topic_at ex_forum ''c1'' ''t1'' = Some ex_topic
   \<and> \<not> closed ex_topic \<and> \<not> messageDeleted ex_topic \<and> messageEditHistory ex_topic = []
   \<and> message ex_topic = ''hi''
   \<and> topic_at (editTopicTimes ''c1'' ''t1'' [(5, ''a''), (6, ''b''), (7, ''c'')] ex_forum) ''c1'' ''t1'' =
       Some (ex_topic\<lparr>message := ''c'', messageEditHistory := [(5, ''hi''), (6, ''a''), (7, ''b'')]\<rparr>)
   \<and> (\<exists>t'. topic_at (editTopicTimes ''c1'' ''t1'' [(5, ''a''), (6, ''b''), (7, ''c'')] ex_forum)
              ''c1'' ''t1'' = Some t'
          \<and> length (messageEditHistory t') = 3 \<and> message t' = ''c'')"
proof -
  have t: "topic_at ex_forum ''c1'' ''t1'' = Some ex_topic"
    by (simp add: topic_at_def ex_forum_def ex_forum_category_def store_get_def)
  have n: "''t1'' \<noteq> ''topics''" by simp
  have c: "\<not> closed ex_topic" and d: "\<not> messageDeleted ex_topic"
    and h: "messageEditHistory ex_topic = []" and m: "message ex_topic = ''hi''"
    by (simp_all add: ex_topic_def new_Topic_def)
  have v: "topic_at (editTopicTimes ''c1'' ''t1'' [(5, ''a''), (6, ''b''), (7, ''c'')] ex_forum) ''c1'' ''t1'' =
       Some (ex_topic\<lparr>message := ''c'', messageEditHistory := [(5, ''hi''), (6, ''a''), (7, ''b'')]\<rparr>)"
    by (simp add: editTopic_def handler_defs store_defs ex_forum_defs)
  show ?thesis
    using t c d h m v editTopic_history [OF t n c d h, of "[(5, ''a''), (6, ''b''), (7, ''c'')]"]
    by simp
qed



subsection \<open>The pins\<close>

lemma set_update_subset: "set (AList.update k v al) \<subseteq> insert (k, v) (set al)"
  by (induction al) auto

lemma set_delete_subset: "set (AList.delete k al) \<subseteq> set al"
  by (induction al) auto

lemma store_get_mem: "store_get m k = Some v \<Longrightarrow> (k, v) \<in> set m"
  by (simp add: store_get_def map_of_SomeD)

lemma pins_inv_category: "pins_inv s \<Longrightarrow> store_get (categoriesStorage s) cid = Some c \<Longrightarrow> pins_ok c"
  using store_get_mem [of "categoriesStorage s" cid c] by (auto simp: pins_inv_def)

lemma pins_inv_set_category: "pins_inv s \<Longrightarrow> pins_ok c \<Longrightarrow> pins_inv (set_category cid c s)"
  using set_update_subset [of cid c "categoriesStorage s"]
  by (auto simp: pins_inv_def set_category_def)

lemma pins_ok_topic_update:
  assumes "pins_ok c" and "topics c tid = Some t" and "ident t' = ident t" and "pinned t' = pinned t"
  shows "pins_ok (c\<lparr>topics := (topics c)(tid \<mapsto> t')\<rparr>)"
  using assms by (auto simp: pins_ok_def)

lemma pins_inv_set_topic:
  assumes "pins_inv s" and "topic_at s cid tid = Some t"
    and "ident t' = ident t" and "pinned t' = pinned t"
  shows "pins_inv (set_topic cid tid t' s)"
proof -
  obtain c where c: "store_get (categoriesStorage s) cid = Some c" and t: "topics c tid = Some t"
    using assms(2) topic_at_Some_category by blast
  have "pins_ok (c\<lparr>topics := (topics c)(tid \<mapsto> t')\<rparr>)"
    by (rule pins_ok_topic_update [OF pins_inv_category [OF assms(1) c] t assms(3,4)])
  then show ?thesis
    by (simp add: set_topic_def c pins_inv_set_category [OF assms(1)])
qed

lemma pins_inv_set_post: "pins_inv s \<Longrightarrow> pins_inv (set_post cid tid i p s)"
proof (cases "topic_at s cid tid")
  case None
  then show "pins_inv s \<Longrightarrow> ?thesis"
    by (auto simp: set_post_def topic_at_def split: option.splits)
next
  case (Some t)
  assume "pins_inv s"
  then show ?thesis
    by (simp add: set_post_eq [OF Some] pins_inv_set_topic [OF _ Some])
qed

lemma resolve_RCategoryD:
  "getCategoryOrTopicOrPost s cid None None = Inr (RCategory c) \<Longrightarrow>
   store_get (categoriesStorage s) cid = Some c"
  by (auto simp: getCategoryOrTopicOrPost_def split: option.splits)

lemma resolve_RTopicD:
  "getCategoryOrTopicOrPost s cid (Some tid) postArg = Inr (RTopic t) \<Longrightarrow>
   topic_at s cid tid = Some t \<and> tid \<noteq> ''topics''"
  by (auto simp: getCategoryOrTopicOrPost_def topic_at_def split: option.splits if_splits)

lemma resolve_RTopicsD:
  "getCategoryOrTopicOrPost s cid (Some tid) postArg = Inr (RTopics ts) \<Longrightarrow> tid = ''topics''"
  by (auto simp: getCategoryOrTopicOrPost_def split: option.splits if_splits)

lemma like_keeps_pin:
  "ident (snd (likeOrUnlikeMessage caller b (t::Topic))) = ident t"
  "pinned (snd (likeOrUnlikeMessage caller b (t::Topic))) = pinned t"
  by (simp_all add: likeOrUnlikeMessage_def split: option.splits)

lemma fresh_uuid_None:
  "fresh_uuid s uuid \<Longrightarrow> store_get (categoriesStorage s) cid = Some c \<Longrightarrow> topics c uuid = None"
  using store_get_mem [of "categoriesStorage s" cid c]
  by (auto simp: fresh_uuid_def list_all_iff)

lemma splice1_distinct:
  assumes "distinct xs" and "i < length xs"
  shows "distinct (splice1 i xs) \<and> set (splice1 i xs) = set xs - {xs ! i}"
proof -
  have "xs = take i xs @ xs ! i # drop (Suc i) xs"
    using assms(2) by (simp add: id_take_nth_drop)
  then have "distinct (take i xs @ xs ! i # drop (Suc i) xs)"
    using assms(1) by simp
  moreover have "set xs = set (take i xs @ xs ! i # drop (Suc i) xs)"
    using \<open>xs = take i xs @ xs ! i # drop (Suc i) xs\<close> by simp
  ultimately show ?thesis
    by (auto simp: splice1_def)
qed

lemma pins_inv_getTopics: "pins_inv s \<Longrightarrow> pins_inv (snd (getTopics cid s))"
  by (auto simp: getTopics_def split: sum.splits resolved.splits)

lemma pins_inv_getTopic: "pins_inv s \<Longrightarrow> pins_inv (snd (getTopic cid tid s))"
  by (auto simp: getTopic_def split: sum.splits)

lemma pins_inv_getPost: "pins_inv s \<Longrightarrow> pins_inv (snd (getPost cid tid pid s))"
  by (auto simp: getPost_def split: sum.splits)

lemma pins_ok_new_Category: "pins_ok (new_Category i n by now)"
  by (simp add: pins_ok_def new_Category_def)

lemma createCategory_state:
  "snd (createCategory uuid now caller nameField s) = s \<or>
   (\<exists>n. snd (createCategory uuid now caller nameField s) =
      set_category uuid (new_Category uuid n caller now) s)"
  by (auto simp: createCategory_def set_category_def store_insert_def new_Category_def Let_def
      split: option.splits)

lemma pins_inv_createCategory:
  "pins_inv s \<Longrightarrow> pins_inv (snd (createCategory uuid now caller nameField s))"
  using createCategory_state [of uuid now caller nameField s]
  by (auto simp: pins_inv_set_category pins_ok_new_Category)

lemma pins_inv_deleteCategory: "pins_inv s \<Longrightarrow> pins_inv (snd (deleteCategory caller cid s))"
  using set_delete_subset [of cid "categoriesStorage s"]
  by (auto simp: deleteCategory_def pins_inv_def store_remove_def)

lemma pins_inv_registry:
  "pins_inv s \<Longrightarrow> pins_inv (snd (registry_response (addAdmin uuid address caller s)))"
  "pins_inv s \<Longrightarrow> pins_inv (snd (registry_response (addModerator uuid address caller s)))"
  "pins_inv s \<Longrightarrow> pins_inv (snd (registry_response (banAddress uuid address caller s)))"
  "pins_inv s \<Longrightarrow> pins_inv (snd (registry_response (removeAdmin address caller s)))"
  "pins_inv s \<Longrightarrow> pins_inv (snd (registry_response (removeModerator address caller s)))"
  "pins_inv s \<Longrightarrow> pins_inv (snd (registry_response (unbanAddress address caller s)))"
  by (auto simp: registry_response_def registry_defs pins_inv_def split: sum.splits option.splits)


lemma pins_ok_mostRecent [simp]: "pins_ok (c\<lparr>mostRecentTopics := x\<rparr>) = pins_ok c"
  by (simp add: pins_ok_def)

lemma pins_ok_topics_property [simp]:
  "pins_ok (c\<lparr>topicsClosed := x\<rparr>) = pins_ok c"
  "pins_ok (c\<lparr>topicsPinned := x\<rparr>) = pins_ok c"
  "pins_ok (c\<lparr>topicsMessage := y\<rparr>) = pins_ok c"
  by (simp_all add: pins_ok_def)

lemma pins_inv_set_topics_property:
  assumes "pins_inv s" and "\<And>c. pins_ok c \<Longrightarrow> pins_ok (f c)"
  shows "pins_inv (set_topics_property cid f s)"
proof (cases "store_get (categoriesStorage s) cid")
  case None
  then show ?thesis using assms(1) by (simp add: set_topics_property_def)
next
  case (Some c)
  then show ?thesis
    using pins_inv_set_category [OF assms(1) assms(2) [OF pins_inv_category [OF assms(1) Some]]]
    by (simp add: set_topics_property_def)
qed

lemma pins_inv_createTopic:
  assumes "pins_inv s" and "fresh_uuid s uuid"
  shows "pins_inv (snd (createTopic uuid now caller cid ti me s))"
proof (cases "store_get (categoriesStorage s) cid")
  case None
  then show ?thesis using assms(1) by (simp add: createTopic_def getCategoryOrTopicOrPost_def)
next
  case (Some c)
  have ok: "pins_ok c" by (rule pins_inv_category [OF assms(1) Some])
  have f: "topics c uuid = None" by (rule fresh_uuid_None [OF assms(2) Some])
  have "pins_ok (c\<lparr>mostRecentTopics := x,
      topics := (topics c)(uuid \<mapsto> new_Topic uuid ti me (categoryIdent c) caller now)\<rparr>)" for x
    using ok f by (auto simp: pins_ok_def new_Topic_def)
  then show ?thesis
    using assms(1)
    by (simp add: createTopic_def resolve_category [OF Some] acknowledgeTopicActivity_def Let_def
        new_Topic_def pins_inv_set_category)
qed

lemma pins_inv_createPost:
  assumes "pins_inv s"
  shows "pins_inv (snd (createPost uuid now caller cid tid me s))"
proof (cases "getCategoryOrTopicOrPost s cid None None")
  case (Inl r)
  then show ?thesis using assms by (simp add: createPost_def)
next
  case (Inr v)
  show ?thesis
  proof (cases "getCategoryOrTopicOrPost s cid (Some tid) None")
    case (Inl r)
    then show ?thesis using assms Inr by (simp add: createPost_def split: resolved.splits)
  next
    case inner: (Inr w)
    show ?thesis
    proof (cases "\<exists>c t. v = RCategory c \<and> w = RTopic t")
      case False
      then show ?thesis using assms Inr inner
        by (auto simp: createPost_def split: resolved.splits)
    next
      case True
      then obtain c t where v: "v = RCategory c" and w: "w = RTopic t" by blast
      have c: "store_get (categoriesStorage s) cid = Some c"
        using Inr v by (simp add: resolve_RCategoryD)
      have t: "topics c tid = Some t"
        using resolve_RTopicD [of s cid tid None t] inner w c by (simp add: topic_at_def)
      have "pins_ok (c\<lparr>mostRecentTopics := x, topics := (topics c)(tid \<mapsto>
          t\<lparr>posts := posts t @ [new_Message uuid me caller now], mostRecentActivity := now\<rparr>)\<rparr>)" for x
        using pins_inv_category [OF assms c] t by (auto simp: pins_ok_def)
      then show ?thesis
        using assms Inr inner v w
        by (simp add: createPost_def acknowledgeTopicActivity_def Let_def pins_inv_set_category)
    qed
  qed
qed

lemma pins_inv_likeTopic: "pins_inv s \<Longrightarrow> pins_inv (snd (likeTopic caller b cid tid s))"
  by (auto simp: likeTopic_def case_prod_beta Let_def like_keeps_pin
      split: sum.splits resolved.splits dest!: resolve_RTopicD intro!: pins_inv_set_topic)

lemma pins_inv_likePost: "pins_inv s \<Longrightarrow> pins_inv (snd (likePost caller b cid tid pid s))"
  by (auto simp: likePost_def case_prod_beta Let_def pins_inv_set_post
      split: sum.splits resolved.splits)

lemma pins_inv_editTopic:
  "pins_inv s \<Longrightarrow> pins_inv (snd (editTopic now cid tid newMessage newTitle s))"
  by (auto simp: editTopic_def Let_def editMessage_def editTitle_def
      split: sum.splits resolved.splits option.splits
      dest!: resolve_RTopicD intro!: pins_inv_set_topic)

lemma pins_inv_closeTopic: "pins_inv s \<Longrightarrow> pins_inv (snd (closeTopic caller cid tid f s))"
  by (auto simp: closeTopic_def split: sum.splits resolved.splits option.splits
      dest!: resolve_RTopicD intro!: pins_inv_set_topic pins_inv_set_topics_property)

lemma pins_inv_editPost: "pins_inv s \<Longrightarrow> pins_inv (snd (editPost now cid tid pid f s))"
  by (auto simp: editPost_def pins_inv_set_post split: sum.splits resolved.splits option.splits)

lemma pins_inv_deletePost: "pins_inv s \<Longrightarrow> pins_inv (snd (deletePost caller cid tid pid s))"
  by (auto simp: deletePost_def pins_inv_set_post split: sum.splits resolved.splits option.splits
      intro!: pins_inv_set_topics_property)

text \<open>The list of pins after the pin handler has treated the id \<open>v\<close>.\<close>

lemma pinned_update:
  assumes "distinct xs"
  shows "distinct (case findIndex (\<lambda>element. element = v) xs of
                     Some i \<Rightarrow> if \<not> b then splice1 i xs else xs
                   | None \<Rightarrow> if b then xs @ [v] else xs)
       \<and> set (case findIndex (\<lambda>element. element = v) xs of
                 Some i \<Rightarrow> if \<not> b then splice1 i xs else xs
               | None \<Rightarrow> if b then xs @ [v] else xs) =
           (if b then insert v (set xs) else set xs - {v})"
proof (cases "findIndex (\<lambda>element. element = v) xs")
  case None
  then have "v \<notin> set xs" by (auto simp: findIndex_None_iff)
  with None assms show ?thesis by (cases b) simp_all
next
  case (Some i)
  then have i: "i < length xs" and v: "xs ! i = v"
    using findIndex_Some_less [of "\<lambda>element. element = v" xs i] by simp_all
  then have m: "v \<in> set xs" by auto
  have s: "distinct (splice1 i xs)" "set (splice1 i xs) = set xs - {v}"
    using splice1_distinct [OF assms i] v by simp_all
  show ?thesis
    using Some assms m s by (cases b) (simp_all add: insert_absorb)
qed

lemma pins_ok_pin:
  assumes ok: "pins_ok c"
    and d: "distinct ps"
    and ps: "set ps = (if b then insert v (set (pinnedTopics c)) else set (pinnedTopics c) - {v})"
    and shape: "(v = None \<and> ts = topics c) \<or>
         (\<exists>tid t. v = Some tid \<and> topics c tid = Some t \<and> ts = (topics c)(tid \<mapsto> t\<lparr>pinned := b\<rparr>))"
  shows "pins_ok (c\<lparr>pinnedTopics := ps, topics := ts\<rparr>)"
proof -
  have mem: "Some k \<in> set ps \<longleftrightarrow> (if v = Some k then b else Some k \<in> set (pinnedTopics c))" for k
    using ps by (cases b) auto
  from shape show ?thesis
  proof
    assume "v = None \<and> ts = topics c"
    then show ?thesis using ok d by (simp add: pins_ok_def mem)
  next
    assume "\<exists>tid t. v = Some tid \<and> topics c tid = Some t \<and> ts = (topics c)(tid \<mapsto> t\<lparr>pinned := b\<rparr>)"
    then obtain tid t where v: "v = Some tid" and t: "topics c tid = Some t"
      and ts: "ts = (topics c)(tid \<mapsto> t\<lparr>pinned := b\<rparr>)" by blast
    have i: "ident t = tid" using ok t by (simp add: pins_ok_def)
    show ?thesis
      unfolding pins_ok_def
    proof (intro conjI allI impI)
      show "distinct (pinnedTopics (c\<lparr>pinnedTopics := ps, topics := ts\<rparr>))" using d by simp
    next
      fix k t0
      assume a: "topics (c\<lparr>pinnedTopics := ps, topics := ts\<rparr>) k = Some t0"
      show "ident t0 = k"
        using a ok i by (cases "k = tid") (auto simp: ts pins_ok_def)
      show "pinned t0 = (Some k \<in> set (pinnedTopics (c\<lparr>pinnedTopics := ps, topics := ts\<rparr>)))"
      proof (cases "k = tid")
        case True
        then show ?thesis using a by (auto simp: ts mem v)
      next
        case False
        then have "topics c k = Some t0" using a by (simp add: ts)
        then have "pinned t0 = (Some k \<in> set (pinnedTopics c))" using ok by (simp add: pins_ok_def)
        then show ?thesis using False by (simp add: mem v)
      qed
    next
      fix k
      assume "Some k \<in> set (pinnedTopics (c\<lparr>pinnedTopics := ps, topics := ts\<rparr>))"
      then have "k = tid \<or> Some k \<in> set (pinnedTopics c)"
        by (simp add: mem v split: if_splits)
      then show "topics (c\<lparr>pinnedTopics := ps, topics := ts\<rparr>) k \<noteq> None"
        using ok by (auto simp: ts pins_ok_def)
    qed
  qed
qed

lemma pins_inv_pinTopic:
  assumes "pins_inv s"
  shows "pins_inv (snd (pinTopic caller cid tid f s))"
proof (cases "\<exists>b c w. f = Some b \<and> (checkIfModerator s caller \<or> checkIfAdmin s caller)
    \<and> getCategoryOrTopicOrPost s cid None None = Inr (RCategory c)
    \<and> getCategoryOrTopicOrPost s cid (Some tid) None = Inr w")
  case False
  then show ?thesis using assms
    by (auto simp: pinTopic_def split: option.splits sum.splits resolved.splits)
next
  case True
  then obtain b c w where f: "f = Some b"
    and staff: "checkIfModerator s caller \<or> checkIfAdmin s caller"
    and rc: "getCategoryOrTopicOrPost s cid None None = Inr (RCategory c)"
    and rw: "getCategoryOrTopicOrPost s cid (Some tid) None = Inr w"
    by blast
  have c: "store_get (categoriesStorage s) cid = Some c"
    using rc by (rule resolve_RCategoryD)
  have ok: "pins_ok c" by (rule pins_inv_category [OF assms c])
  let ?v = "case w of RTopic topic \<Rightarrow> Some (ident topic) | _ \<Rightarrow> None"
  let ?ps = "case findIndex (\<lambda>element. element = ?v) (pinnedTopics c) of
               Some i \<Rightarrow> if \<not> b then splice1 i (pinnedTopics c) else pinnedTopics c
             | None \<Rightarrow> if b then pinnedTopics c @ [?v] else pinnedTopics c"
  let ?ts = "case w of RTopic topic \<Rightarrow> (topics c)(tid \<mapsto> topic\<lparr>pinned := b\<rparr>) | _ \<Rightarrow> topics c"
  have d: "distinct (pinnedTopics c)" using ok by (simp add: pins_ok_def)
  have ps: "distinct ?ps \<and> set ?ps = (if b then insert ?v (set (pinnedTopics c)) else set (pinnedTopics c) - {?v})"
    by (rule pinned_update [OF d])
  have shape: "(?v = None \<and> ?ts = topics c) \<or>
         (\<exists>tid t. ?v = Some tid \<and> topics c tid = Some t \<and> ?ts = (topics c)(tid \<mapsto> t\<lparr>pinned := b\<rparr>))"
  proof (cases w)
    case (RTopic t)
    then have t: "topics c tid = Some t"
      using resolve_RTopicD [of s cid tid None t] rw c by (simp add: topic_at_def)
    then have "ident t = tid" using ok by (simp add: pins_ok_def)
    with RTopic t show ?thesis by simp
  qed simp_all
  let ?c = "case w of
             RTopic topic \<Rightarrow>
               c\<lparr>pinnedTopics := ?ps, topics := (topics c)(tid \<mapsto> topic\<lparr>pinned := b\<rparr>)\<rparr>
           | _ \<Rightarrow> c\<lparr>pinnedTopics := ?ps, topicsPinned := Some b\<rparr>"
  have both: "pins_ok (c\<lparr>pinnedTopics := ?ps, topics := ?ts\<rparr>)"
    using pins_ok_pin [OF ok] ps shape by blast
  have "pins_ok (c'\<lparr>topicsPinned := x\<rparr>)"
    if "pins_ok (c'\<lparr>topics := topics c'\<rparr>)" for c' :: Category and x
    using that by (simp add: pins_ok_def)
  then have "pins_ok ?c"
    using both by (cases w) simp_all
  then have "pins_inv (set_category cid ?c s)"
    by (rule pins_inv_set_category [OF assms])
  then show ?thesis
    using staff by (simp add: pinTopic_def f rc rw Let_def)
qed


lemma pins_inv_handle:
  assumes "pins_inv s" and "fresh_uuid s uuid"
  shows "pins_inv (snd (handle uuid now caller req s))"
  using assms
  by (cases req)
    (simp_all add: pins_inv_getTopics pins_inv_getTopic pins_inv_getPost pins_inv_createCategory
      pins_inv_createTopic pins_inv_createPost pins_inv_likeTopic pins_inv_likePost
      pins_inv_editTopic pins_inv_pinTopic pins_inv_closeTopic pins_inv_editPost
      pins_inv_registry pins_inv_deleteCategory pins_inv_deletePost)

lemma reachable_pins_inv: "reachable s \<Longrightarrow> pins_inv s"
proof (induction rule: reachable.induct)
  case (initial s)
  then show ?case by (simp add: pins_inv_def)
next
  case (request s uuid now caller req)
  then show ?case by (simp add: pins_inv_handle)
qed

lemma pinTopic_same:
  assumes c: "store_get (categoriesStorage s) cid = Some c" and t: "topics c tid = Some t"
    and n: "tid \<noteq> ''topics''" and staff: "checkIfModerator s caller \<or> checkIfAdmin s caller"
    and same: "(Some (ident t) \<in> set (pinnedTopics c)) = b"
  shows "pinTopic caller cid tid (Some b) s =
     (Sent 200 (Text (if b then ''Topic pinned'' else ''Topic unpinned'')),
      set_category cid (c\<lparr>topics := (topics c)(tid \<mapsto> t\<lparr>pinned := b\<rparr>)\<rparr>) s)"
proof -
  have rt: "getCategoryOrTopicOrPost s cid (Some tid) None = Inr (RTopic t)"
    using c t n by (simp add: getCategoryOrTopicOrPost_def)
  show ?thesis
  proof (cases "findIndex (\<lambda>element. element = Some (ident t)) (pinnedTopics c)")
    case None
    then have "\<not> b" using same by (auto simp: findIndex_None_iff)
    with None staff show ?thesis
      by (simp add: pinTopic_def resolve_category [OF c] rt Let_def)
  next
    case (Some i)
    then have "b" using same findIndex_None_iff [of "\<lambda>element. element = Some (ident t)" "pinnedTopics c"]
      by auto
    with Some staff show ?thesis
      by (simp add: pinTopic_def resolve_category [OF c] rt Let_def)
  qed
qed

text \<open>
  Claim C10: in every state that the canister reaches from a state without categories,
  by any requests (every new identifier being fresh), every stored category has a
  \<open>pinnedTopics\<close> list without duplicates, and the \<open>pinned\<close> flag of each of its topics is
  set exactly when the id of the topic occurs in \<open>pinnedTopics\<close>. The pin request of a
  moderator or admin is idempotent there: pinning a topic whose id is in \<open>pinnedTopics\<close>
  already, or unpinning one whose id is not, answers 200, leaves \<open>pinnedTopics\<close> as it
  is and the flag equal to \<open>shouldPin\<close>; the state does not change at all.
\<close>

theorem pins_consistent:
  assumes "reachable s" and "store_get (categoriesStorage s) cid = Some c"
  shows "distinct (pinnedTopics c)
    \<and> (\<forall>tid t. topics c tid = Some t \<longrightarrow> (pinned t \<longleftrightarrow> Some (ident t) \<in> set (pinnedTopics c)))
    \<and> (\<forall>caller tid t shouldPin.
          (checkIfModerator s caller \<or> checkIfAdmin s caller) \<and> topics c tid = Some t
          \<and> tid \<noteq> ''topics'' \<and> (Some (ident t) \<in> set (pinnedTopics c)) = shouldPin \<longrightarrow>
          fst (pinTopic caller cid tid (Some shouldPin) s) =
            Sent 200 (Text (if shouldPin then ''Topic pinned'' else ''Topic unpinned''))
          \<and> (\<exists>c' t'. store_get (categoriesStorage (snd (pinTopic caller cid tid (Some shouldPin) s))) cid
                       = Some c'
                \<and> pinnedTopics c' = pinnedTopics c \<and> topics c' tid = Some t'
                \<and> pinned t' = shouldPin)
          \<and> snd (pinTopic caller cid tid (Some shouldPin) s) = s)"
proof -
  have ok: "pins_ok c"
    by (rule pins_inv_category [OF reachable_pins_inv [OF assms(1)] assms(2)])
  have flags: "\<forall>tid t. topics c tid = Some t \<longrightarrow> (pinned t \<longleftrightarrow> Some (ident t) \<in> set (pinnedTopics c))"
    using ok by (auto simp: pins_ok_def)
  have idem: "fst (pinTopic caller cid tid (Some b) s) =
            Sent 200 (Text (if b then ''Topic pinned'' else ''Topic unpinned''))
          \<and> (\<exists>c' t'. store_get (categoriesStorage (snd (pinTopic caller cid tid (Some b) s))) cid = Some c'
                \<and> pinnedTopics c' = pinnedTopics c \<and> topics c' tid = Some t' \<and> pinned t' = b)
          \<and> snd (pinTopic caller cid tid (Some b) s) = s"
    if staff: "checkIfModerator s caller \<or> checkIfAdmin s caller" and t: "topics c tid = Some t"
      and n: "tid \<noteq> ''topics''" and same: "(Some (ident t) \<in> set (pinnedTopics c)) = b"
    for caller tid t b
  proof -
    have p: "pinned t = b" using flags t same by simp
    then have "t\<lparr>pinned := b\<rparr> = t" by simp
    then have "c\<lparr>topics := (topics c)(tid \<mapsto> t\<lparr>pinned := b\<rparr>)\<rparr> = c"
      using t by (simp add: map_upd_triv)
    then have "pinTopic caller cid tid (Some b) s =
        (Sent 200 (Text (if b then ''Topic pinned'' else ''Topic unpinned'')), s)"
      using pinTopic_same [OF assms(2) t n staff same] set_category_same [OF assms(2)] by simp
    then show ?thesis using assms(2) t p by simp
  qed
  have d: "distinct (pinnedTopics c)" using ok by (simp add: pins_ok_def)
  show ?thesis
  proof (intro conjI)
    show "distinct (pinnedTopics c)" by (rule d)
    show "\<forall>tid t. topics c tid = Some t \<longrightarrow> (pinned t \<longleftrightarrow> Some (ident t) \<in> set (pinnedTopics c))"
      by (rule flags)
    show "\<forall>caller tid t shouldPin.
          (checkIfModerator s caller \<or> checkIfAdmin s caller) \<and> topics c tid = Some t
          \<and> tid \<noteq> ''topics'' \<and> (Some (ident t) \<in> set (pinnedTopics c)) = shouldPin \<longrightarrow>
          fst (pinTopic caller cid tid (Some shouldPin) s) =
            Sent 200 (Text (if shouldPin then ''Topic pinned'' else ''Topic unpinned''))
          \<and> (\<exists>c' t'. store_get (categoriesStorage (snd (pinTopic caller cid tid (Some shouldPin) s))) cid
                       = Some c'
                \<and> pinnedTopics c' = pinnedTopics c \<and> topics c' tid = Some t'
                \<and> pinned t' = shouldPin)
          \<and> snd (pinTopic caller cid tid (Some shouldPin) s) = s"
      using idem by blast
  qed
qed

lemma ex_pinned_state:
  "ex_pinned = ex_boot\<lparr>categoriesStorage := [(''c1'', ex_pinned_category)]\<rparr>"
  by (simp add: ex_pinned_def ex_pinned_category_def ex_pinned_topic_def ex_boot_def
      createCategory_def createTopic_def pinTopic_def validateCategoryInput_def is_space_def
      handler_defs check_defs store_defs new_Category_def new_Topic_def Let_def)

theorem pins_consistent_witness:
  "reachable ex_pinned
   \<and> store_get (categoriesStorage ex_pinned) ''c1'' = Some ex_pinned_category
   \<and> distinct (pinnedTopics ex_pinned_category)
   \<and> topics ex_pinned_category ''t1'' = Some ex_pinned_topic
   \<and> pinned ex_pinned_topic \<and> Some (ident ex_pinned_topic) \<in> set (pinnedTopics ex_pinned_category)
   \<and> checkIfAdmin ex_pinned ''root''
   \<and> fst (pinTopic ''root'' ''c1'' ''t1'' (Some True) ex_pinned) = Sent 200 (Text ''Topic pinned'')
   \<and> snd (pinTopic ''root'' ''c1'' ''t1'' (Some True) ex_pinned) = ex_pinned"
proof -
  have f1: "fresh_uuid ex_boot ''c1''"
    by (simp add: fresh_uuid_def ex_boot_def)
  have f2: "fresh_uuid (snd (handle ''c1'' 1 ''root'' (PostCategory (Some ''General'')) ex_boot)) ''t1''"
    by (simp add: fresh_uuid_def ex_boot_def createCategory_def validateCategoryInput_def
        is_space_def check_defs store_defs new_Category_def Let_def)
  have f3: "fresh_uuid (snd (handle ''t1'' 2 ''alice'' (PostTopic ''c1'' ''Hello'' ''hi'')
         (snd (handle ''c1'' 1 ''root'' (PostCategory (Some ''General'')) ex_boot)))) ''u3''"
    by (simp add: fresh_uuid_def ex_boot_def createCategory_def createTopic_def
        validateCategoryInput_def is_space_def handler_defs check_defs store_defs
        new_Category_def new_Topic_def Let_def)
  have r0: "reachable ex_boot"
    by (rule reachable.initial) (simp add: ex_boot_def)
  have r: "reachable ex_pinned"
    unfolding ex_pinned_def
    by (intro reachable.request r0 f1 f2 f3)
  have c: "store_get (categoriesStorage ex_pinned) ''c1'' = Some ex_pinned_category"
    by (simp add: ex_pinned_state store_get_def)
  have t: "topics ex_pinned_category ''t1'' = Some ex_pinned_topic"
    by (simp add: ex_pinned_category_def)
  have a: "checkIfAdmin ex_pinned ''root''"
    by (simp add: ex_pinned_state ex_boot_def check_defs store_defs)
  have m: "Some (ident ex_pinned_topic) \<in> set (pinnedTopics ex_pinned_category)"
    by (simp add: ex_pinned_category_def ex_pinned_topic_def new_Topic_def)
  have n: "''t1'' \<noteq> ''topics''" by simp
  note pc = pins_consistent [OF r c]
  show ?thesis
    using r c t a m n pc [THEN conjunct1] pc [THEN conjunct2, THEN conjunct1]
      pc [THEN conjunct2, THEN conjunct2, rule_format, of "''root''" "''t1''" ex_pinned_topic True]
    by simp
qed

subsection \<open>The map of topics as a topic\<close>

text \<open>
  A moderator closes the topic id \<^verbatim>\<open>topics\<close>: the route answers 200 and the map object of
  the category gets the property \<^verbatim>\<open>closed\<close>. Edits addressed to \<^verbatim>\<open>topics\<close> are refused from
  then on, where before the topic edit without fields answered 200.
\<close>

lemma close_topics_object_then_edit:
  "fst (editTopic 9 ''c1'' ''topics'' None None ex_forum) = Sent 200 (Text ''Topic updated'')
   \<and> fst (closeTopic ''mod'' ''c1'' ''topics'' (Some True) ex_forum) = Sent 200 (Text ''Topic closed'')
   \<and> fst (editTopic 9 ''c1'' ''topics'' None None
        (snd (closeTopic ''mod'' ''c1'' ''topics'' (Some True) ex_forum))) =
       Sent 403 (Text ''This topic has been closed'')
   \<and> fst (editPost 9 ''c1'' ''topics'' 0 (Some ''x'')
        (snd (closeTopic ''mod'' ''c1'' ''topics'' (Some True) ex_forum))) =
       Sent 403 (Text ''This post's topic has been closed'')
   \<and> topic_at (snd (closeTopic ''mod'' ''c1'' ''topics'' (Some True) ex_forum)) ''c1'' ''t1'' =
       Some ex_topic"
  by (simp add: editTopic_def editPost_def closeTopic_def topicsObjectClosed_def
      set_topics_property_def handler_defs check_defs store_defs ex_forum_defs)

end
